(* ===== verification/Tunnel_Prelude.thy ===== *)
theory Tunnel_Prelude
  imports Main "HOL-Library.Word" "HOL-Library.Sublist"
begin

unbundle bit_operations_syntax

text \<open>
  Shared vocabulary of the development: the byte and integer types of the Go
  sources, the error values the modelled code can return, the big-endian
  16-bit encoding of \<open>encoding/binary\<close>, and the list and word lemmas that
  several components use. The collection \<open>go_simps\<close> gathers the rewriting
  rules that component proofs pass to \<open>simp\<close> and \<open>auto\<close>.
\<close>

named_theorems go_simps \<open>rewriting rules of the Go library model\<close>

type_synonym byte = "8 word"
type_synonym bytes = "8 word list"
type_synonym u16 = "16 word"
type_synonym u32 = "32 word"
type_synonym duration = int  \<comment> \<open>\<open>time.Duration\<close>, in nanoseconds\<close>
type_synonym time = int  \<comment> \<open>\<open>time.Time\<close>, nanoseconds since the zero \<open>Time\<close>\<close>

text \<open>
  Errors are values. \<open>EOF\<close>, \<open>UnexpectedEOF\<close> and \<open>NetClosed\<close> are the
  sentinels \<open>io.EOF\<close>, \<open>io.ErrUnexpectedEOF\<close> and \<open>net.ErrClosed\<close>;
  \<open>TimeoutErr\<close> is \<open>timeoutErr\<close> of rawpacketconn.go and \<open>AllServersDown\<close> is
  \<open>errAllServersDown\<close> of multipath.go; \<open>Wrapped\<close> is \<open>fmt.Errorf\<close> around another
  error, with a tag for its (Persian) message; every other error carries a text.
\<close>

datatype go_error =
    EOF
  | UnexpectedEOF
  | NetClosed
  | TimeoutErr
  | AllServersDown
  | OtherErr string
  | Wrapped string go_error

abbreviation second :: duration where
  "second \<equiv> 1000000000"

abbreviation millisecond :: duration where
  "millisecond \<equiv> 1000000"

definition put_u16 :: "u16 \<Rightarrow> bytes" where
  "put_u16 w = [ucast (drop_bit 8 w), ucast w]"

definition get_u16 :: "byte \<Rightarrow> byte \<Rightarrow> u16" where
  "get_u16 hi lo = push_bit 8 (ucast hi) OR ucast lo"

definition wrap64 :: "int \<Rightarrow> int" where
  "wrap64 n = (n + 2 ^ 63) mod 2 ^ 64 - 2 ^ 63"

lemma get_put_u16 [simp]:
  "get_u16 (ucast (drop_bit 8 w)) (ucast w) = w"
  by (rule bit_word_eqI) (auto simp: get_u16_def bit_simps)

lemma length_put_u16 [simp]: "length (put_u16 w) = 2"
  by (simp add: put_u16_def)

lemma unat_u16_of_nat [simp]:
  "unat (of_nat n :: u16) = n mod 65536"
  by (simp add: unat_of_nat)

lemma wrap64_id: "- (2 ^ 63) \<le> n \<Longrightarrow> n < 2 ^ 63 \<Longrightarrow> wrap64 n = n"
  by (simp add: wrap64_def)

lemma wrap64_range: "- (2 ^ 63) \<le> wrap64 n \<and> wrap64 n < 2 ^ 63"
proof -
  have "0 \<le> (n + 2 ^ 63) mod 2 ^ 64" "(n + 2 ^ 63) mod 2 ^ 64 < (2 ^ 64 :: int)"
    by (rule pos_mod_sign, simp, rule pos_mod_bound, simp)
  then show ?thesis by (simp add: wrap64_def)
qed

lemma take_append_le [go_simps]:
  "n \<le> length xs \<Longrightarrow> take n (xs @ ys) = take n xs"
  by simp

lemma split_two_pieces: "take m xs @ take n (drop m xs) @ drop (m + n) xs = xs"
  by (simp add: add.commute [of m n] flip: drop_drop)

lemma prefix_take [simp]: "prefix (take n xs) xs"
  by (rule take_is_prefix)

lemma concat_eq_Nil_iff: "concat xss = [] \<longleftrightarrow> (\<forall>xs \<in> set xss. xs = [])"
  by simp

end
