(* ===== verification/Go_Conn.thy ===== *)
theory Go_Conn
  imports Tunnel_Prelude
begin

text \<open>
  The \<open>net.Conn\<close> values every transport of the program is built on. The record
  \<open>net_conn\<close> models an established connection as the two byte streams the code
  sees: the segments its \<open>Read\<close> calls will return (any segmentation the network
  chooses), the error that follows them, the segments written so far and how many
  bytes the peer still accepts. \<open>io.ReadFull\<close> is the loop of package \<open>io\<close>
  over \<open>Read\<close>. The locale \<open>conn_writer\<close> states the contract of \<open>io.Writer\<close>
  that the layers above rely on; it is interpreted on \<open>net_conn\<close> here and on
  the fragmenting layer in \<open>Tls_Transport\<close>.
\<close>

type_synonym io_result = "nat \<times> go_error option"

record net_conn =
  inq :: "bytes list"
  in_end :: go_error
  wire :: "bytes list"
  quota :: "nat option"
  is_closed :: bool

definition fresh_conn :: "bytes list \<Rightarrow> net_conn" where
  "fresh_conn segs =
     \<lparr>inq = segs, in_end = EOF, wire = [], quota = None, is_closed = False\<rparr>"

definition conn_write :: "net_conn \<Rightarrow> bytes \<Rightarrow> io_result \<times> net_conn" where
  "conn_write c p =
     (if is_closed c then ((0, Some NetClosed), c)
      else case quota c of
        None \<Rightarrow> ((length p, None), c\<lparr>wire := wire c @ [p]\<rparr>)
      | Some q \<Rightarrow>
          if length p \<le> q
          then ((length p, None), c\<lparr>wire := wire c @ [p], quota := Some (q - length p)\<rparr>)
          else ((q, Some (OtherErr ''broken pipe'')),
                c\<lparr>wire := wire c @ [take q p], quota := Some 0\<rparr>))"

definition conn_read :: "net_conn \<Rightarrow> nat \<Rightarrow> (bytes \<times> go_error option) \<times> net_conn" where
  "conn_read c k =
     (if is_closed c then (([], Some NetClosed), c)
      else if k = 0 then (([], None), c)
      else case inq c of
        [] \<Rightarrow> (([], Some (in_end c)), c)
      | s # ss \<Rightarrow>
          if length s \<le> k then ((s, None), c\<lparr>inq := ss\<rparr>)
          else ((take k s, None), c\<lparr>inq := drop k s # ss\<rparr>))"

text \<open>
  \<open>io.ReadFull(c, buf)\<close> with \<open>len(buf) = n\<close>: \<open>got\<close> holds what was read so far.
  It stops when the buffer is full or \<open>Read\<close> fails, and turns an \<open>EOF\<close> in
  the middle into \<open>ErrUnexpectedEOF\<close>.
\<close>

function read_full_loop ::
  "net_conn \<Rightarrow> nat \<Rightarrow> bytes \<Rightarrow> (go_error + bytes) \<times> net_conn" where
  "read_full_loop c n got =
     (if n \<le> length got then (Inr got, c)
      else case conn_read c (n - length got) of
        ((d, None), c') \<Rightarrow> read_full_loop c' n (got @ d)
      | ((d, Some e), c') \<Rightarrow>
          (Inl (if got @ d \<noteq> [] \<and> e = EOF then UnexpectedEOF else e), c'))"
  by pat_completeness auto
termination
proof (relation "measure (\<lambda>(c, n, got). length (concat (inq c)) + length (inq c))", goal_cases)
  case 1
  show ?case by simp
next
  case (2 c n got x a b d)
  then show ?case
    by (auto simp: conn_read_def split: if_splits list.splits)
qed

declare read_full_loop.simps [simp del]

definition read_full :: "net_conn \<Rightarrow> nat \<Rightarrow> (go_error + bytes) \<times> net_conn" where
  "read_full c n = read_full_loop c n []"

definition conn_close :: "net_conn \<Rightarrow> net_conn" where
  "conn_close c = c\<lparr>is_closed := True\<rparr>"

definition conn_sent :: "net_conn \<Rightarrow> bytes" where
  "conn_sent c = concat (wire c)"

definition unread :: "net_conn \<Rightarrow> bytes" where
  "unread c = concat (inq c)"

subsection \<open>Reading does not depend on how the network cuts the stream\<close>

lemma conn_read_cases:
  assumes "\<not> is_closed c" and "0 < k"
  obtains (eof) "inq c = []" "conn_read c k = (([], Some (in_end c)), c)"
  | (data) d c' where "conn_read c k = ((d, None), c')" "unread c = d @ unread c'"
      "length d \<le> k" "in_end c' = in_end c" "\<not> is_closed c'"
      "c' = c\<lparr>inq := inq c'\<rparr>"
proof (cases "inq c")
  case Nil
  with assms show ?thesis by (intro eof) (simp_all add: conn_read_def)
next
  case (Cons s ss)
  show ?thesis
  proof (cases "length s \<le> k")
    case True
    with Cons assms show ?thesis
      by (intro data [of s "c\<lparr>inq := ss\<rparr>"]) (simp_all add: conn_read_def unread_def)
  next
    case False
    with Cons assms show ?thesis
      by (intro data [of "take k s" "c\<lparr>inq := drop k s # ss\<rparr>"])
         (simp_all add: conn_read_def unread_def)
  qed
qed

lemma read_full_loop_enough:
  assumes "\<not> is_closed c" and "n \<le> length (got @ unread c)" and "length got \<le> n"
  shows "\<exists>c'. read_full_loop c n got = (Inr (take n (got @ unread c)), c')
           \<and> got @ unread c = take n (got @ unread c) @ unread c'
           \<and> \<not> is_closed c' \<and> in_end c' = in_end c \<and> c' = c\<lparr>inq := inq c'\<rparr>"
  using assms
proof (induction c n got rule: read_full_loop.induct)
  case (1 c n got)
  show ?case
  proof (cases "n \<le> length got")
    case True
    with 1 show ?thesis by (simp add: read_full_loop.simps [of c n got])
  next
    case False
    with 1 have "0 < n - length got" by simp
    with \<open>\<not> is_closed c\<close> show ?thesis
    proof (cases rule: conn_read_cases)
      case eof
      with 1 False show ?thesis by (simp add: unread_def)
    next
      case (data d c')
      have "\<exists>c''. read_full_loop c' n (got @ d) = (Inr (take n ((got @ d) @ unread c')), c'')
           \<and> (got @ d) @ unread c' = take n ((got @ d) @ unread c') @ unread c''
           \<and> \<not> is_closed c'' \<and> in_end c'' = in_end c' \<and> c'' = c'\<lparr>inq := inq c''\<rparr>"
        using 1 False data by (intro "1.IH") auto
      with False data show ?thesis
        by (auto simp: read_full_loop.simps [of c n got])
           (metis net_conn.surjective net_conn.update_convs(1))
    qed
  qed
qed

lemma read_full_loop_short:
  assumes "\<not> is_closed c" and "length (got @ unread c) < n"
  shows "\<exists>c'. read_full_loop c n got =
           (Inl (if got @ unread c \<noteq> [] \<and> in_end c = EOF then UnexpectedEOF else in_end c), c')
           \<and> unread c' = [] \<and> \<not> is_closed c' \<and> in_end c' = in_end c"
  using assms
proof (induction c n got rule: read_full_loop.induct)
  case (1 c n got)
  then have nf: "\<not> n \<le> length got" and pos: "0 < n - length got" by auto
  from \<open>\<not> is_closed c\<close> pos show ?case
  proof (cases rule: conn_read_cases)
    case eof
    with 1 nf show ?thesis by (simp add: read_full_loop.simps [of c n got] unread_def)
  next
    case (data d c')
    have "\<exists>c''. read_full_loop c' n (got @ d) =
         (Inl (if (got @ d) @ unread c' \<noteq> [] \<and> in_end c' = EOF
               then UnexpectedEOF else in_end c'), c'')
       \<and> unread c'' = [] \<and> \<not> is_closed c'' \<and> in_end c'' = in_end c'"
      using 1 nf data by (intro "1.IH") auto
    with nf data show ?thesis by (auto simp: read_full_loop.simps [of c n got])
  qed
qed

lemma read_full_enough:
  assumes "\<not> is_closed c" and "unread c = d @ rest" and "length d = n"
  obtains c' where "read_full c n = (Inr d, c')" "unread c' = rest"
    "\<not> is_closed c'" "in_end c' = in_end c" "c' = c\<lparr>inq := inq c'\<rparr>"
  using read_full_loop_enough [of c n "[]"] assms by (auto simp: read_full_def)

lemma read_full_short:
  assumes "\<not> is_closed c" and "length (unread c) < n"
  obtains c' where
    "read_full c n = (Inl (if unread c \<noteq> [] \<and> in_end c = EOF then UnexpectedEOF else in_end c), c')"
    "unread c' = []" "\<not> is_closed c'" "in_end c' = in_end c"
  using read_full_loop_short [of c "[]" n] assms by (auto simp: read_full_def)

lemma read_full_eof:
  assumes "\<not> is_closed c" and "in_end c = EOF" and "length (unread c) < n"
  shows "\<exists>c'. read_full c n = (Inl (if unread c = [] then EOF else UnexpectedEOF), c')"
  by (rule read_full_short [OF assms(1,3)]) (use assms(2) in auto)

lemma read_full_zero [simp]: "read_full c 0 = (Inr [], c)"
  by (simp add: read_full_def read_full_loop.simps)

subsection \<open>The contract of \<open>io.Writer\<close>\<close>

locale conn_writer =
  fixes put :: "'c \<Rightarrow> bytes \<Rightarrow> io_result \<times> 'c"
    and sent :: "'c \<Rightarrow> bytes"
  assumes write_full: "put c p = ((n, None), c') \<Longrightarrow> n = length p \<and> sent c' = sent c @ p"
    and write_short: "put c p = ((n, Some e), c') \<Longrightarrow> n \<le> length p \<and> sent c' = sent c @ take n p"
begin

lemma write_count: "put c p = ((n, e), c') \<Longrightarrow> n \<le> length p \<and> sent c' = sent c @ take n p"
  by (cases e) (auto dest: write_full write_short)

lemma write_extends: "put c p = (r, c') \<Longrightarrow> prefix (sent c) (sent c')"
  by (cases r) (auto dest: write_count)

end

interpretation tcp: conn_writer conn_write conn_sent
  by unfold_locales (auto simp: conn_write_def conn_sent_def split: if_splits option.splits)

end
