(* ===== verification/Obfs.thy ===== *)
theory Obfs
  imports Go_Conn
begin

text \<open>
  The obfuscation layer of src/t2tunnel/obfs.go: \<open>obfsConn\<close> puts every payload in
  a frame with a four-byte header (payload length and padding length, both
  big-endian 16-bit), the payload and random padding, and takes the frames apart
  again on the other side, keeping what the caller's buffer could not hold in
  \<open>readBuf\<close>. Random numbers are an input: the record \<open>entropy\<close> holds the draws one
  \<open>Write\<close> makes, and \<open>intn\<close> maps a draw into the range \<open>rand.Intn\<close> promises.
  A Go panic is the result \<open>None\<close>.
\<close>

record ObfsConfig =
  Enabled :: bool
  MinPadding :: int
  MaxPadding :: int
  MinDelay :: duration
  MaxDelay :: duration

definition DefaultObfsConfig :: ObfsConfig where
  "DefaultObfsConfig =
     \<lparr>Enabled = True, MinPadding = 16, MaxPadding = 256,
      MinDelay = 0, MaxDelay = 3 * millisecond\<rparr>"

record 'c obfsConn =
  o_conn :: 'c
  o_cfg :: ObfsConfig
  o_readBuf :: bytes

datatype 'c wrapped = Plain 'c | Obfuscated "'c obfsConn"

definition WrapObfs :: "'c \<Rightarrow> ObfsConfig \<Rightarrow> 'c wrapped" where
  "WrapObfs c cfg =
     (if \<not> Enabled cfg then Plain c
      else Obfuscated \<lparr>o_conn = c, o_cfg = cfg, o_readBuf = []\<rparr>)"

record entropy =
  pad_draw :: nat
  pad_byte :: "nat \<Rightarrow> byte"
  jitter_draw :: nat

definition intn :: "nat \<Rightarrow> int \<Rightarrow> int option" where
  "intn draw n = (if n \<le> 0 then None else Some (int draw mod n))"

definition obfs_pad_len :: "ObfsConfig \<Rightarrow> entropy \<Rightarrow> int option" where
  "obfs_pad_len cfg e =
     (if MaxPadding cfg > MinPadding cfg
      then map_option (\<lambda>r. wrap64 (MinPadding cfg + r))
             (intn (pad_draw e) (wrap64 (MaxPadding cfg - MinPadding cfg)))
      else Some (MinPadding cfg))"

definition applyJitter :: "ObfsConfig \<Rightarrow> entropy \<Rightarrow> duration option" where
  "applyJitter cfg e =
     (if MaxDelay cfg \<le> 0 then Some 0
      else let delta = wrap64 (MaxDelay cfg - MinDelay cfg)
        in if delta \<le> 0 then Some (MinDelay cfg)
           else map_option (\<lambda>r. wrap64 (MinDelay cfg + r)) (intn (jitter_draw e) delta))"

text \<open>
  \<open>Write\<close> over the embedded connection's own \<open>Write\<close> (\<open>put\<close>); the result also
  says how long \<open>applyJitter\<close> slept.
\<close>

definition obfs_Write ::
  "('c \<Rightarrow> bytes \<Rightarrow> io_result \<times> 'c) \<Rightarrow> 'c obfsConn \<Rightarrow> entropy \<Rightarrow> bytes
     \<Rightarrow> (io_result \<times> duration \<times> 'c obfsConn) option" where
  "obfs_Write put c e p =
     (case obfs_pad_len (o_cfg c) e of
        None \<Rightarrow> None
      | Some padLen \<Rightarrow>
          if padLen < 0 then None
          else let pad = map (pad_byte e) [0 ..< nat padLen];
                   header = put_u16 (of_nat (length p)) @ put_u16 (of_int padLen);
                   frame = header @ p @ pad
            in case applyJitter (o_cfg c) e of
                 None \<Rightarrow> None
               | Some slept \<Rightarrow>
                   (case put (o_conn c) frame of
                      ((_, Some er), k) \<Rightarrow> Some ((0, Some er), slept, c\<lparr>o_conn := k\<rparr>)
                    | ((_, None), k) \<Rightarrow> Some ((length p, None), slept, c\<lparr>o_conn := k\<rparr>)))"

definition obfs_Read ::
  "net_conn obfsConn \<Rightarrow> nat \<Rightarrow> (bytes \<times> go_error option) \<times> net_conn obfsConn" where
  "obfs_Read c k =
     (if o_readBuf c \<noteq> []
      then let n = min k (length (o_readBuf c))
        in ((take n (o_readBuf c), None), c\<lparr>o_readBuf := drop n (o_readBuf c)\<rparr>)
      else case read_full (o_conn c) 4 of
        (Inl e, c1) \<Rightarrow> (([], Some e), c\<lparr>o_conn := c1\<rparr>)
      | (Inr header, c1) \<Rightarrow>
          let dataLen = unat (get_u16 (header ! 0) (header ! 1));
              padLen = unat (get_u16 (header ! 2) (header ! 3))
          in (case read_full c1 dataLen of
                (Inl e, c2) \<Rightarrow> (([], Some e), c\<lparr>o_conn := c2\<rparr>)
              | (Inr data, c2) \<Rightarrow>
                  (case (if padLen > 0 then read_full c2 padLen else (Inr [], c2)) of
                     (Inl e, c3) \<Rightarrow> (([], Some e), c\<lparr>o_conn := c3\<rparr>)
                   | (Inr _, c3) \<Rightarrow>
                       let n = min k (length data)
                       in ((take n data, None),
                           if n < length data
                           then c\<lparr>o_conn := c3, o_readBuf := drop n data\<rparr>
                           else c\<lparr>o_conn := c3\<rparr>))))"

text \<open>A caller's sequence of writes, and of reads up to the first error.\<close>

fun obfs_writes ::
  "('c \<Rightarrow> bytes \<Rightarrow> io_result \<times> 'c) \<Rightarrow> 'c obfsConn \<Rightarrow> (entropy \<times> bytes) list
     \<Rightarrow> 'c obfsConn option" where
  "obfs_writes put c [] = Some c"
| "obfs_writes put c ((e, p) # ps) =
     (case obfs_Write put c e p of
        Some ((_, None), _, c') \<Rightarrow> obfs_writes put c' ps
      | _ \<Rightarrow> None)"

fun obfs_reads ::
  "net_conn obfsConn \<Rightarrow> nat list \<Rightarrow> (bytes \<times> go_error option) \<times> net_conn obfsConn" where
  "obfs_reads c [] = (([], None), c)"
| "obfs_reads c (k # ks) =
     (case obfs_Read c k of
        ((d, Some e), c') \<Rightarrow> ((d, Some e), c')
      | ((d, None), c') \<Rightarrow>
          (case obfs_reads c' ks of ((ds, e), c'') \<Rightarrow> ((d @ ds, e), c'')))"

subsection \<open>Frames\<close>

definition obfs_frame :: "bytes \<Rightarrow> bytes \<Rightarrow> bytes" where
  "obfs_frame p pad = put_u16 (of_nat (length p)) @ put_u16 (of_nat (length pad)) @ p @ pad"

definition frame_ok :: "bytes \<times> bytes \<Rightarrow> bool" where
  "frame_ok f \<longleftrightarrow> length (fst f) < 65536 \<and> length (snd f) < 65536"

text \<open>What the reader still owes its caller: the buffered rest and the frames on the way.\<close>

definition obfs_view :: "net_conn obfsConn \<Rightarrow> bytes \<Rightarrow> (bytes \<times> bytes) list \<Rightarrow> bool" where
  "obfs_view c b fs \<longleftrightarrow>
     o_readBuf c = b \<and> unread (o_conn c) = concat (map (\<lambda>(p, pad). obfs_frame p pad) fs)
     \<and> \<not> is_closed (o_conn c) \<and> in_end (o_conn c) = EOF \<and> list_all frame_ok fs"

text \<open>The abstract reader: a queue of messages read in pieces.\<close>

fun queue_read :: "bytes \<Rightarrow> bytes list \<Rightarrow> nat \<Rightarrow> (bytes \<times> bytes \<times> bytes list) option" where
  "queue_read b ms k =
     (if b \<noteq> [] then Some (take k b, drop k b, ms)
      else case ms of
        [] \<Rightarrow> None
      | m # ms' \<Rightarrow> Some (take k m, drop k m, ms'))"

lemma intn_range: "intn d n = Some r \<Longrightarrow> 0 \<le> r \<and> r < n"
  by (auto simp: intn_def split: if_splits)

lemma default_pad_len:
  "\<exists>n. obfs_pad_len DefaultObfsConfig e = Some n \<and> 16 \<le> n \<and> n < 256"
proof -
  have "0 \<le> int (pad_draw e) mod 240" "int (pad_draw e) mod 240 < 240" by simp_all
  then show ?thesis
    by (simp add: obfs_pad_len_def DefaultObfsConfig_def intn_def wrap64_def)
qed

lemma default_jitter:
  "\<exists>d. applyJitter DefaultObfsConfig e = Some d \<and> 0 \<le> d \<and> d < 3 * millisecond"
proof -
  have "0 \<le> int (jitter_draw e) mod 3000000" "int (jitter_draw e) mod 3000000 < 3000000"
    by simp_all
  then show ?thesis
    by (simp add: applyJitter_def DefaultObfsConfig_def intn_def wrap64_def)
qed

lemma header_nth:
  assumes "h = put_u16 a @ put_u16 b"
  shows "get_u16 (h ! 0) (h ! 1) = a" "get_u16 (h ! 2) (h ! 3) = b" "length h = 4"
  using assms by (simp_all add: put_u16_def)

text \<open>One frame: header, payload and padding are consumed, the rest of the stream is left.\<close>

lemma obfs_Read_frame:
  assumes "o_readBuf c = []" and "\<not> is_closed (o_conn c)"
    and un: "unread (o_conn c) = put_u16 a @ put_u16 b @ d @ pad @ rest"
    and "length d = unat a" and "length pad = unat b"
  obtains c' where "obfs_Read c k = ((take k d, None), c')" "o_readBuf c' = drop k d"
    "unread (o_conn c') = rest" "\<not> is_closed (o_conn c')"
    "in_end (o_conn c') = in_end (o_conn c)"
proof -
  define h where "h = put_u16 a @ put_u16 b"
  note h = header_nth [OF h_def]
  from un have "unread (o_conn c) = h @ (d @ pad @ rest)" by (simp add: h_def)
  from read_full_enough [OF assms(2) this h(3)] obtain c1 where
    1: "read_full (o_conn c) 4 = (Inr h, c1)" "unread c1 = d @ (pad @ rest)"
    "\<not> is_closed c1" "in_end c1 = in_end (o_conn c)" by blast
  from read_full_enough [OF 1(3,2) assms(4)] obtain c2 where
    2: "read_full c1 (unat a) = (Inr d, c2)" "unread c2 = pad @ rest"
    "\<not> is_closed c2" "in_end c2 = in_end c1" by blast
  from read_full_enough [OF 2(3,2) assms(5)] obtain c3 where
    3: "read_full c2 (unat b) = (Inr pad, c3)" "unread c3 = rest"
    "\<not> is_closed c3" "in_end c3 = in_end c2" by blast
  have pad: "(if unat b > 0 then read_full c2 (unat b) else (Inr [], c2)) = (Inr pad, c3)"
    using 3(1) assms(5) by (cases "unat b") simp_all
  let ?c' = "if min k (length d) < length d then c\<lparr>o_conn := c3, o_readBuf := drop (min k (length d)) d\<rparr>
             else c\<lparr>o_conn := c3\<rparr>"
  have "obfs_Read c k = ((take (min k (length d)) d, None), ?c')"
    using assms(1) 1(1) 2(1) pad
    by (simp add: obfs_Read_def h Let_def del: One_nat_def)
  moreover have "o_readBuf ?c' = drop k d" using assms(1) by simp
  ultimately show thesis
    using that [of ?c'] 1 2 3 by (simp add: min_def split: if_splits)
qed

subsection \<open>Reading refines the message queue\<close>

lemma obfs_view_Nil_read:
  assumes "obfs_view c [] []"
  shows "\<exists>c'. obfs_Read c k = (([], Some EOF), c') \<and> obfs_view c' [] []"
proof -
  from assms have "o_readBuf c = []" "\<not> is_closed (o_conn c)" "unread (o_conn c) = []"
    "in_end (o_conn c) = EOF"
    by (simp_all add: obfs_view_def)
  moreover from this obtain c1 where "read_full (o_conn c) 4 = (Inl EOF, c1)" "unread c1 = []"
    "\<not> is_closed c1" "in_end c1 = EOF"
    by (auto elim: read_full_short [where n = 4])
  ultimately show ?thesis by (simp add: obfs_Read_def obfs_view_def)
qed

lemma obfs_view_Cons_read:
  assumes "obfs_view c [] ((p, pad) # fs)"
  obtains c' where "obfs_Read c k = ((take k p, None), c')" "obfs_view c' (drop k p) fs"
proof -
  from assms have *: "o_readBuf c = []" "\<not> is_closed (o_conn c)" "in_end (o_conn c) = EOF"
    "unread (o_conn c) = put_u16 (of_nat (length p)) @ put_u16 (of_nat (length pad)) @ p @ pad
        @ concat (map (\<lambda>(p, pad). obfs_frame p pad) fs)"
    "length p < 65536" "length pad < 65536" "list_all frame_ok fs"
    by (simp_all add: obfs_view_def obfs_frame_def frame_ok_def)
  show thesis
    by (rule obfs_Read_frame [OF *(1,2,4), where k = k])
       (use * that in \<open>simp_all add: obfs_view_def\<close>)
qed

lemma obfs_view_buf_read:
  assumes "obfs_view c b fs" and "b \<noteq> []"
  shows "\<exists>c'. obfs_Read c k = ((take k b, None), c') \<and> obfs_view c' (drop k b) fs"
  using assms by (cases "k \<le> length b") (simp_all add: obfs_view_def obfs_Read_def)

lemma obfs_Read_refines_queue:
  assumes "obfs_view c b fs"
  shows "case queue_read b (map fst fs) k of
      None \<Rightarrow> \<exists>c'. obfs_Read c k = (([], Some EOF), c') \<and> obfs_view c' b fs
    | Some (d, b', ms') \<Rightarrow>
        \<exists>c' fs'. obfs_Read c k = ((d, None), c') \<and> obfs_view c' b' fs' \<and> map fst fs' = ms'"
proof (cases "b = []")
  case True
  show ?thesis
  proof (cases fs)
    case Nil
    with True assms show ?thesis by (simp add: obfs_view_Nil_read)
  next
    case (Cons f fs')
    obtain p pad where f: "f = (p, pad)" by (cases f)
    with Cons True assms have "obfs_view c [] ((p, pad) # fs')" by simp
    then obtain c' where "obfs_Read c k = ((take k p, None), c')" "obfs_view c' (drop k p) fs'"
      by (rule obfs_view_Cons_read)
    with Cons True f show ?thesis by auto
  qed
next
  case False
  with obfs_view_buf_read [OF assms False, of k] show ?thesis by auto
qed

text \<open>
  The bytes still owed shrink by what a read returns; a read with a non-empty
  buffer also makes progress in the number of owed bytes and frames.
\<close>

lemma queue_read_progress:
  assumes "queue_read b ms k = Some (d, b', ms')"
  shows "b @ concat ms = d @ b' @ concat ms'"
    and "0 < k \<Longrightarrow> length (b' @ concat ms') + length ms' < length (b @ concat ms) + length ms"
  using assms by (auto split: if_splits list.splits)

lemma queue_read_None: "queue_read b ms k = None \<longleftrightarrow> b = [] \<and> ms = []"
  by (auto split: if_splits list.splits)

lemma obfs_reads_all:
  assumes "obfs_view c b fs" and "\<forall>k \<in> set ks. 0 < k"
    and "length (b @ concat (map fst fs)) + length fs < length ks"
  shows "\<exists>c'. obfs_reads c ks = ((b @ concat (map fst fs), Some EOF), c')"
  using assms
proof (induction ks arbitrary: c b fs)
  case Nil
  then show ?case by simp
next
  case (Cons k ks)
  from obfs_Read_refines_queue [OF Cons.prems(1), of k]
  show ?case
  proof (cases "queue_read b (map fst fs) k")
    case None
    with obfs_Read_refines_queue [OF Cons.prems(1), of k] queue_read_None [of b "map fst fs" k]
    show ?thesis by auto
  next
    case (Some r)
    obtain d b' ms' where r: "r = (d, b', ms')" by (cases r)
    with Some obfs_Read_refines_queue [OF Cons.prems(1), of k] obtain c' fs' where
      rd: "obfs_Read c k = ((d, None), c')" and v: "obfs_view c' b' fs'" and ms: "map fst fs' = ms'"
      by auto
    from ms have "length ms' = length fs'" by auto
    with queue_read_progress(2) [OF Some [unfolded r]] Cons.prems(2,3) ms
    have "length (b' @ concat (map fst fs')) + length fs' < length ks" by simp
    with Cons.IH [OF v] Cons.prems(2) obtain c'' where
      "obfs_reads c' ks = ((b' @ concat ms', Some EOF), c'')" using ms by auto
    with rd queue_read_progress(1) [OF Some [unfolded r]] show ?thesis by simp
  qed
qed

lemma obfs_reads_prefix:
  assumes "obfs_view c b fs" and "obfs_reads c ks = ((d, e), c')"
  shows "prefix d (b @ concat (map fst fs)) \<and> (e = None \<or> e = Some EOF \<and> d = b @ concat (map fst fs))"
  using assms
proof (induction ks arbitrary: c b fs d)
  case Nil
  then show ?case by simp
next
  case (Cons k ks)
  show ?case
  proof (cases "queue_read b (map fst fs) k")
    case None
    with obfs_Read_refines_queue [OF Cons.prems(1), of k] queue_read_None [of b "map fst fs" k]
      Cons.prems(2) show ?thesis by auto
  next
    case (Some r)
    obtain d1 b' ms' where r: "r = (d1, b', ms')" by (cases r)
    with Some obfs_Read_refines_queue [OF Cons.prems(1), of k] obtain c1 fs' where
      rd: "obfs_Read c k = ((d1, None), c1)" and v: "obfs_view c1 b' fs'" and ms: "map fst fs' = ms'"
      by auto
    from Cons.prems(2) rd obtain d2 where d2: "obfs_reads c1 ks = ((d2, e), c')" "d = d1 @ d2"
      by (auto split: prod.splits)
    from Cons.IH [OF v d2(1)] queue_read_progress(1) [OF Some [unfolded r]] ms d2(2)
    show ?thesis by auto
  qed
qed

subsection \<open>Writing over any \<open>io.Writer\<close>\<close>

definition obfs_pad :: "entropy \<Rightarrow> bytes" where
  "obfs_pad e = map (pad_byte e) [0 ..< nat (the (obfs_pad_len DefaultObfsConfig e))]"

lemma length_obfs_pad: "16 \<le> length (obfs_pad e) \<and> length (obfs_pad e) < 256"
  using default_pad_len [of e] by (auto simp: obfs_pad_def)

lemma length_obfs_pad_u16 [simp]: "length (obfs_pad e) < 65536"
  using length_obfs_pad [of e] by simp

lemma obfs_Write_default:
  assumes "o_cfg c = DefaultObfsConfig"
  obtains slept where "0 \<le> slept" "slept < 3 * millisecond"
    "obfs_Write put c e p =
       (case put (o_conn c) (obfs_frame p (obfs_pad e)) of
          ((_, Some er), k) \<Rightarrow> Some ((0, Some er), slept, c\<lparr>o_conn := k\<rparr>)
        | ((_, None), k) \<Rightarrow> Some ((length p, None), slept, c\<lparr>o_conn := k\<rparr>))"
proof -
  obtain n where n: "obfs_pad_len DefaultObfsConfig e = Some n" "16 \<le> n" "n < 256"
    using default_pad_len by blast
  obtain d where d: "applyJitter DefaultObfsConfig e = Some d" "0 \<le> d" "d < 3 * millisecond"
    using default_jitter by blast
  have "of_int n = (of_nat (length (obfs_pad e)) :: u16)"
    using n by (simp add: obfs_pad_def)
  with n d assms show thesis
    by (intro that [of d]) (simp_all add: obfs_Write_def obfs_frame_def obfs_pad_def)
qed

context conn_writer
begin

lemma obfs_Write_ok:
  assumes "o_cfg c = DefaultObfsConfig" and "obfs_Write put c e p = Some ((n, None), slept, c')"
  shows "n = length p" "o_cfg c' = DefaultObfsConfig"
    "sent (o_conn c') = sent (o_conn c) @ obfs_frame p (obfs_pad e)"
proof -
  obtain s' where eq: "obfs_Write put c e p =
       (case put (o_conn c) (obfs_frame p (obfs_pad e)) of
          ((_, Some er), k) \<Rightarrow> Some ((0, Some er), s', c\<lparr>o_conn := k\<rparr>)
        | ((_, None), k) \<Rightarrow> Some ((length p, None), s', c\<lparr>o_conn := k\<rparr>))"
    by (rule obfs_Write_default [OF assms(1)])
  obtain m er k where w: "put (o_conn c) (obfs_frame p (obfs_pad e)) = ((m, er), k)"
    by (metis prod.exhaust)
  with eq assms(2) have "er = None" by (auto split: option.splits)
  with w eq assms write_full [of "o_conn c" "obfs_frame p (obfs_pad e)" m k]
  show "n = length p" "o_cfg c' = DefaultObfsConfig"
    "sent (o_conn c') = sent (o_conn c) @ obfs_frame p (obfs_pad e)"
    by auto
qed

lemma obfs_writes_ok:
  assumes "o_cfg c = DefaultObfsConfig" and "obfs_writes put c eps = Some c'"
  shows "sent (o_conn c') = sent (o_conn c) @ concat (map (\<lambda>(e, p). obfs_frame p (obfs_pad e)) eps)"
  using assms
proof (induction eps arbitrary: c)
  case Nil
  then show ?case by simp
next
  case (Cons ep eps)
  obtain e p where ep: "ep = (e, p)" by (cases ep)
  with Cons.prems obtain n slept c1 where w: "obfs_Write put c e p = Some ((n, None), slept, c1)"
    and rest: "obfs_writes put c1 eps = Some c'"
    by (auto split: option.splits prod.splits)
  note one = obfs_Write_ok [OF Cons.prems(1) w]
  from Cons.IH [OF one(2) rest] one(3) ep show ?case by simp
qed

end

text \<open>A peer that reads the frames of a sequence of writes, however they are cut.\<close>

lemma obfs_frames_read:
  assumes "\<forall>(e, p) \<in> set eps. length p < 65536"
    and "concat segs = concat (map (\<lambda>(e, p). obfs_frame p (obfs_pad e)) eps)"
    and "\<forall>k \<in> set ks. 0 < k"
    and "length (concat (map snd eps)) + length eps < length ks"
  shows "fst (obfs_reads \<lparr>o_conn = fresh_conn segs, o_cfg = DefaultObfsConfig, o_readBuf = []\<rparr> ks)
           = (concat (map snd eps), Some EOF)"
proof -
  let ?fs = "map (\<lambda>(e, p). (p, obfs_pad e)) eps"
  let ?r = "\<lparr>o_conn = fresh_conn segs, o_cfg = DefaultObfsConfig, o_readBuf = []\<rparr>"
  have "list_all frame_ok ?fs"
    using assms(1) by (auto simp: list_all_iff frame_ok_def)
  moreover have fs: "map fst ?fs = map snd eps"
    by (simp add: case_prod_beta comp_def)
  moreover have "unread (fresh_conn segs) = concat (map (\<lambda>(p, pad). obfs_frame p pad) ?fs)"
    using assms(2) by (simp add: unread_def fresh_conn_def split_def comp_def)
  ultimately have view: "obfs_view ?r [] ?fs"
    by (simp add: obfs_view_def fresh_conn_def)
  have "length ([] @ concat (map fst ?fs)) + length ?fs < length ks"
    using assms(4) unfolding fs by simp
  with obfs_reads_all [OF view assms(3)] show ?thesis unfolding fs by auto
qed

subsection \<open>Properties of the layer\<close>

text \<open>
  (C1) End to end: whatever payloads of less than 65536 bytes a caller writes through
  the layer, and however the network cuts the frames into segments, a peer that
  keeps reading with non-empty buffers gets exactly the payload bytes in order,
  then \<open>EOF\<close>.
\<close>

theorem obfs_stream_roundtrip:
  assumes "obfs_writes conn_write \<lparr>o_conn = fresh_conn [], o_cfg = DefaultObfsConfig, o_readBuf = []\<rparr> eps
             = Some w"
    and "\<forall>(e, p) \<in> set eps. length p < 65536"
    and "concat segs = conn_sent (o_conn w)"
    and "\<forall>k \<in> set ks. 0 < k"
    and "length (concat (map snd eps)) + length eps < length ks"
  shows "fst (obfs_reads \<lparr>o_conn = fresh_conn segs, o_cfg = DefaultObfsConfig, o_readBuf = []\<rparr> ks)
           = (concat (map snd eps), Some EOF)"
  using obfs_frames_read [OF assms(2) _ assms(4,5)] assms(3) tcp.obfs_writes_ok [OF _ assms(1)]
  by (simp add: conn_sent_def fresh_conn_def)

definition demo_entropy :: entropy where
  "demo_entropy = \<lparr>pad_draw = 3, pad_byte = (\<lambda>i. of_nat i), jitter_draw = 7\<rparr>"

lemma demo_pad_len: "obfs_pad_len DefaultObfsConfig demo_entropy = Some 19"
  by (simp add: obfs_pad_len_def DefaultObfsConfig_def demo_entropy_def intn_def wrap64_def)

lemma demo_jitter: "applyJitter DefaultObfsConfig demo_entropy = Some 7"
  by (simp add: applyJitter_def DefaultObfsConfig_def demo_entropy_def intn_def wrap64_def)

lemma demo_writes:
  "\<exists>w. obfs_writes conn_write
     \<lparr>o_conn = fresh_conn [], o_cfg = DefaultObfsConfig, o_readBuf = []\<rparr>
     [(demo_entropy, [1, 2, 3]), (demo_entropy, [])] = Some w"
  by (simp add: obfs_Write_def demo_pad_len demo_jitter conn_write_def fresh_conn_def)

theorem obfs_stream_roundtrip_witness:
  "\<exists>segs. fst (obfs_reads \<lparr>o_conn = fresh_conn segs, o_cfg = DefaultObfsConfig, o_readBuf = []\<rparr>
     [2, 2, 2, 2, 2, 2]) = ([1, 2, 3], Some EOF)"
proof -
  from demo_writes obtain w where w: "obfs_writes conn_write
     \<lparr>o_conn = fresh_conn [], o_cfg = DefaultObfsConfig, o_readBuf = []\<rparr>
     [(demo_entropy, [1, 2, 3]), (demo_entropy, [])] = Some w" ..
  show ?thesis
    using obfs_stream_roundtrip [OF w, of "[conn_sent (o_conn w)]" "[2, 2, 2, 2, 2, 2]"] by auto
qed

text \<open>
  (C9) Refinement: one \<open>Read\<close> does to the layer's state what one read does to a
  queue of messages, for every buffer size, every segmentation and every padding;
  \<open>EOF\<close> is reported exactly when nothing is owed any more.
\<close>

theorem obfs_read_refines_message_queue:
  assumes "obfs_view c b fs"
  shows "case queue_read b (map fst fs) k of
      None \<Rightarrow> \<exists>c'. obfs_Read c k = (([], Some EOF), c') \<and> obfs_view c' b fs
    | Some (d, b', ms') \<Rightarrow>
        \<exists>c' fs'. obfs_Read c k = ((d, None), c') \<and> obfs_view c' b' fs' \<and> map fst fs' = ms'"
  using assms by (rule obfs_Read_refines_queue)

lemma demo_view:
  "obfs_view \<lparr>o_conn = fresh_conn [obfs_frame [7, 8, 9] [0]], o_cfg = DefaultObfsConfig,
     o_readBuf = []\<rparr> [] [([7, 8, 9], [0])]"
  by (simp add: obfs_view_def fresh_conn_def unread_def frame_ok_def)

theorem obfs_read_refines_message_queue_witness:
  "\<exists>c' fs'. obfs_Read \<lparr>o_conn = fresh_conn [obfs_frame [7, 8, 9] [0]], o_cfg = DefaultObfsConfig,
     o_readBuf = []\<rparr> 2 = (([7, 8], None), c') \<and> obfs_view c' [9] fs' \<and> fs' = []"
  using obfs_read_refines_message_queue [OF demo_view, of 2] by simp

text \<open>
  Safety of reading: whatever the sequence of buffer sizes, the bytes handed out
  are a prefix of the payload bytes, and an error is only ever the final \<open>EOF\<close>
  after all of them.
\<close>

theorem obfs_reads_never_invent_bytes:
  assumes "obfs_view c b fs" and "obfs_reads c ks = ((d, e), c')"
  shows "prefix d (b @ concat (map fst fs))
    \<and> (e = None \<or> e = Some EOF \<and> d = b @ concat (map fst fs))"
  using assms by (rule obfs_reads_prefix)

theorem obfs_reads_never_invent_bytes_witness:
  "\<exists>d e c'. obfs_reads \<lparr>o_conn = fresh_conn [obfs_frame [7, 8, 9] [0]], o_cfg = DefaultObfsConfig,
     o_readBuf = []\<rparr> [2] = ((d, e), c') \<and> prefix d [7, 8, 9]"
proof -
  let ?c = "\<lparr>o_conn = fresh_conn [obfs_frame [7, 8, 9] [0]], o_cfg = DefaultObfsConfig,
     o_readBuf = []\<rparr>"
  obtain d e c' where r: "obfs_reads ?c [2] = ((d, e), c')" by (metis prod.exhaust)
  with obfs_reads_never_invent_bytes [OF demo_view r] show ?thesis by auto
qed

lemma obfs_Read_cut_header:
  assumes "o_readBuf c = []" and "\<not> is_closed (o_conn c)" and "in_end (o_conn c) = EOF"
    and "length (unread (o_conn c)) < 4"
  shows "fst (obfs_Read c k) = ([], Some (if unread (o_conn c) = [] then EOF else UnexpectedEOF))"
  using assms read_full_eof [of "o_conn c" 4] by (auto simp: obfs_Read_def)

lemma obfs_Read_cut_payload:
  assumes "o_readBuf c = []" and "\<not> is_closed (o_conn c)" and "in_end (o_conn c) = EOF"
    and un: "unread (o_conn c) = put_u16 a @ put_u16 b @ d" and "length d < unat a"
  shows "fst (obfs_Read c k) = ([], Some (if d = [] then EOF else UnexpectedEOF))"
proof -
  define h where "h = put_u16 a @ put_u16 b"
  note h = header_nth [OF h_def]
  from un have "unread (o_conn c) = h @ d" by (simp add: h_def)
  from read_full_enough [OF assms(2) this h(3)] obtain c1 where
    1: "read_full (o_conn c) 4 = (Inr h, c1)" "unread c1 = d"
    "\<not> is_closed c1" "in_end c1 = in_end (o_conn c)" by blast
  with read_full_eof [of c1 "unat a"] assms obtain c2 where
    "read_full c1 (unat a) = (Inl (if d = [] then EOF else UnexpectedEOF), c2)" by auto
  with 1 assms(1) show ?thesis by (simp add: obfs_Read_def h Let_def del: One_nat_def)
qed

lemma obfs_Read_cut_padding:
  assumes "o_readBuf c = []" and "\<not> is_closed (o_conn c)" and "in_end (o_conn c) = EOF"
    and un: "unread (o_conn c) = put_u16 a @ put_u16 b @ d @ pad"
    and "length d = unat a" and "length pad < unat b"
  shows "fst (obfs_Read c k) = ([], Some (if pad = [] then EOF else UnexpectedEOF))"
proof -
  define h where "h = put_u16 a @ put_u16 b"
  note h = header_nth [OF h_def]
  from un have "unread (o_conn c) = h @ (d @ pad)" by (simp add: h_def)
  from read_full_enough [OF assms(2) this h(3)] obtain c1 where
    1: "read_full (o_conn c) 4 = (Inr h, c1)" "unread c1 = d @ pad"
    "\<not> is_closed c1" "in_end c1 = in_end (o_conn c)" by blast
  from read_full_enough [OF 1(3,2) assms(5)] obtain c2 where
    2: "read_full c1 (unat a) = (Inr d, c2)" "unread c2 = pad"
    "\<not> is_closed c2" "in_end c2 = in_end c1" by blast
  with read_full_eof [of c2 "unat b"] 1 assms obtain c3 where
    "read_full c2 (unat b) = (Inl (if pad = [] then EOF else UnexpectedEOF), c3)" by auto
  with 1 2 assms show ?thesis by (auto simp: obfs_Read_def h Let_def simp del: One_nat_def)
qed

text \<open>
  (C24) A stream that ends inside a frame delivers nothing of that frame. The error is
  \<open>EOF\<close> exactly when the cut falls on the start of the header, of the payload or of
  the padding (each is one \<open>io.ReadFull\<close>), and \<open>ErrUnexpectedEOF\<close> elsewhere:
  a frame cut right after its header or right before its padding looks like a
  clean end of stream.
\<close>

theorem obfs_truncated_frame:
  assumes "length p < 65536" and "length pad < 65536" and "m < length (obfs_frame p pad)"
  shows "fst (obfs_Read \<lparr>o_conn = fresh_conn [take m (obfs_frame p pad)], o_cfg = cfg, o_readBuf = []\<rparr> k)
    = ([], Some (if m \<in> {0, 4, 4 + length p} then EOF else UnexpectedEOF))"
proof -
  let ?c = "\<lparr>o_conn = fresh_conn [take m (obfs_frame p pad)], o_cfg = cfg, o_readBuf = []\<rparr>"
  let ?a = "of_nat (length p) :: u16" and ?b = "of_nat (length pad) :: u16"
  have c: "o_readBuf ?c = []" "\<not> is_closed (o_conn ?c)" "in_end (o_conn ?c) = EOF"
    "unread (o_conn ?c) = take m (obfs_frame p pad)"
    by (simp_all add: fresh_conn_def unread_def)
  consider (header) "m < 4" | (payload) "4 \<le> m" "m < 4 + length p" | (padding) "4 + length p \<le> m"
    by linarith
  then show ?thesis
  proof cases
    case header
    with obfs_Read_cut_header [OF c(1-3)] c(4) assms(3) show ?thesis by auto
  next
    case payload
    with c(4) have "unread (o_conn ?c) = put_u16 ?a @ put_u16 ?b @ take (m - 4) p"
      by (simp add: obfs_frame_def)
    from obfs_Read_cut_payload [OF c(1-3) this] payload assms(1) show ?thesis by auto
  next
    case padding
    with c(4) have "unread (o_conn ?c) = put_u16 ?a @ put_u16 ?b @ p @ take (m - 4 - length p) pad"
      by (simp add: obfs_frame_def)
    from obfs_Read_cut_padding [OF c(1-3) this] padding assms show ?thesis
      by (auto simp: obfs_frame_def)
  qed
qed

theorem obfs_truncated_frame_witness:
  "fst (obfs_Read \<lparr>o_conn = fresh_conn [take 7 (obfs_frame [1, 2, 3] [0, 0])],
      o_cfg = DefaultObfsConfig, o_readBuf = []\<rparr> 10) = ([], Some EOF)"
  using obfs_truncated_frame [of "[1, 2, 3]" "[0, 0]" 7 DefaultObfsConfig 10]
  by (simp add: obfs_frame_def put_u16_def)

text \<open>
  (C33) Bounds of the default configuration: \<open>Write\<close> never panics, whatever the random
  draws; the padding it sends has 16 to 255 bytes, so its length always fits the
  header field, and the jitter is below three milliseconds. The frame is handed to
  the embedded connection in a single \<open>Write\<close>, and an error there is reported
  with zero bytes written.
\<close>

theorem obfs_write_default_bounds:
  assumes "o_cfg c = DefaultObfsConfig"
  shows "\<exists>pad slept. 16 \<le> length pad \<and> length pad < 256 \<and> 0 \<le> slept \<and> slept < 3 * millisecond
    \<and> obfs_Write put c e p =
        (case put (o_conn c) (put_u16 (of_nat (length p)) @ put_u16 (of_nat (length pad)) @ p @ pad) of
           ((_, Some er), k) \<Rightarrow> Some ((0, Some er), slept, c\<lparr>o_conn := k\<rparr>)
         | ((_, None), k) \<Rightarrow> Some ((length p, None), slept, c\<lparr>o_conn := k\<rparr>))"
proof -
  obtain slept where "0 \<le> slept" "slept < 3 * millisecond"
    "obfs_Write put c e p =
       (case put (o_conn c) (obfs_frame p (obfs_pad e)) of
          ((_, Some er), k) \<Rightarrow> Some ((0, Some er), slept, c\<lparr>o_conn := k\<rparr>)
        | ((_, None), k) \<Rightarrow> Some ((length p, None), slept, c\<lparr>o_conn := k\<rparr>))"
    by (rule obfs_Write_default [OF assms])
  with length_obfs_pad [of e] show ?thesis
    by (intro exI [of _ "obfs_pad e"] exI [of _ slept]) (simp add: obfs_frame_def)
qed

theorem obfs_write_default_bounds_witness:
  "\<exists>(pad :: bytes) slept. 16 \<le> length pad \<and> length pad < 256 \<and> slept < 3 * millisecond
    \<and> map_option fst (obfs_Write conn_write
          \<lparr>o_conn = fresh_conn [], o_cfg = DefaultObfsConfig, o_readBuf = []\<rparr> demo_entropy [1, 2])
        = Some (2, None)"
proof -
  let ?c = "\<lparr>o_conn = fresh_conn [], o_cfg = DefaultObfsConfig, o_readBuf = []\<rparr>"
  from obfs_write_default_bounds [of ?c conn_write demo_entropy "[1, 2]"] obtain pad :: bytes and slept where
    "16 \<le> length pad" "length pad < 256" "slept < 3 * millisecond"
    "map_option fst (obfs_Write conn_write ?c demo_entropy [1, 2]) = Some (2, None)"
    by (auto simp: conn_write_def fresh_conn_def)
  then show ?thesis by blast
qed

lemma obfs_Write_fresh:
  "\<exists>slept c'. obfs_Write conn_write \<lparr>o_conn = fresh_conn [], o_cfg = DefaultObfsConfig, o_readBuf = b\<rparr> e p
     = Some ((length p, None), slept, c')"
  by (rule obfs_Write_default [of "\<lparr>o_conn = fresh_conn [], o_cfg = DefaultObfsConfig, o_readBuf = b\<rparr>"
        conn_write e p]) (simp_all add: conn_write_def fresh_conn_def)

text \<open>
  (C34) Payloads of 65536 bytes or more do not survive: \<open>Write\<close> reports that every
  byte was written, but the 16-bit length field wraps, so the peer's next \<open>Read\<close>
  returns only the first \<open>len(p) mod 65536\<close> bytes and resumes in the middle of the
  payload.
\<close>

theorem obfs_oversize_payload_lost:
  assumes "65536 \<le> length p"
    and "obfs_Write conn_write \<lparr>o_conn = fresh_conn [], o_cfg = DefaultObfsConfig, o_readBuf = []\<rparr> e p
           = Some ((n, None), slept, w)"
  shows "n = length p
    \<and> fst (obfs_Read \<lparr>o_conn = fresh_conn [conn_sent (o_conn w)], o_cfg = DefaultObfsConfig,
             o_readBuf = []\<rparr> k)
        = (take k (take (length p mod 65536) p), None)"
proof -
  let ?w = "\<lparr>o_conn = fresh_conn [], o_cfg = DefaultObfsConfig, o_readBuf = []\<rparr>"
  let ?r = "\<lparr>o_conn = fresh_conn [conn_sent (o_conn w)], o_cfg = DefaultObfsConfig, o_readBuf = []\<rparr>"
  let ?a = "of_nat (length p) :: u16" and ?b = "of_nat (length (obfs_pad e)) :: u16"
  let ?m = "length p mod 65536" and ?q = "length (obfs_pad e)"
  note w = tcp.obfs_Write_ok [OF _ assms(2), simplified]
  have big: "?m + ?q \<le> length p"
  proof -
    have "length p = 65536 * (length p div 65536) + ?m" by simp
    moreover have "1 \<le> length p div 65536" using assms(1) by (simp add: div_greater_zero_iff Suc_le_eq)
    ultimately show ?thesis using length_obfs_pad_u16 [of e] by linarith
  qed
  have un: "unread (o_conn ?r) = put_u16 ?a @ put_u16 ?b @ take ?m p @ take ?q (drop ?m p)
      @ (drop (?m + ?q) p @ obfs_pad e)"
  proof -
    have "unread (o_conn ?r) = obfs_frame p (obfs_pad e)"
      using w(3) by (simp add: unread_def fresh_conn_def conn_sent_def)
    also have "\<dots> = put_u16 ?a @ put_u16 ?b @ (take ?m p @ take ?q (drop ?m p) @ drop (?m + ?q) p)
        @ obfs_pad e"
      by (simp only: obfs_frame_def split_two_pieces)
    finally show ?thesis by simp
  qed
  obtain c' where "obfs_Read ?r k = ((take k (take ?m p), None), c')"
    by (rule obfs_Read_frame [OF _ _ un, where k = k])
       (use big in \<open>simp_all add: fresh_conn_def\<close>)
  with w(1) show ?thesis by simp
qed

theorem obfs_oversize_payload_lost_witness:
  "\<exists>slept w. obfs_Write conn_write \<lparr>o_conn = fresh_conn [], o_cfg = DefaultObfsConfig, o_readBuf = []\<rparr>
      demo_entropy (replicate 65538 7) = Some ((65538, None), slept, w)
    \<and> fst (obfs_Read \<lparr>o_conn = fresh_conn [conn_sent (o_conn w)], o_cfg = DefaultObfsConfig,
             o_readBuf = []\<rparr> 100000) = ([7, 7], None)"
proof -
  obtain slept w where w: "obfs_Write conn_write
      \<lparr>o_conn = fresh_conn [], o_cfg = DefaultObfsConfig, o_readBuf = []\<rparr>
      demo_entropy (replicate 65538 7) = Some ((65538, None), slept, w)"
    using obfs_Write_fresh [of "[]" demo_entropy "replicate 65538 7"] by (auto simp only: length_replicate)
  have le: "65536 \<le> length (replicate 65538 (7 :: byte))" by (simp only: length_replicate)
  have two: "take 100000 (take (65538 mod 65536) (replicate 65538 (7 :: byte))) = [7, 7]"
    by (simp only: take_replicate) (simp add: numeral_2_eq_2)
  from obfs_oversize_payload_lost [OF le w, of 100000] two w show ?thesis
    unfolding length_replicate by metis
qed

end
