(* ===== verification/Tls_Transport.thy ===== *)
theory Tls_Transport
  imports Go_Conn
begin

text \<open>
  src/t2tunnel/tls_transport.go: \<open>fragConn\<close>, which cuts the first write of a
  connection (the TLS ClientHello) into small pieces; the self-signed certificate
  and the TLS listener; and \<open>dialTLS\<close>, which stacks TCP, fragmentation and TLS or
  uTLS. The TCP stack and the TLS handshakes act on a world of type \<open>'w\<close> through
  the functions of the record \<open>dial_env\<close>; what the code relies on of them is the
  predicate \<open>dial_env_ok\<close>.
\<close>

subsection \<open>Fragmenting the first write\<close>

record 'c fragConn =
  f_conn :: 'c
  firstDone :: bool
  f_chunk :: int

text \<open>
  The loop of \<open>Write\<close>. It is entered only with a positive chunk size; the test for
  zero is there for the recursion to be totalal.
\<close>

function frag_loop ::
  "('c \<Rightarrow> bytes \<Rightarrow> io_result \<times> 'c) \<Rightarrow> 'c \<Rightarrow> bytes \<Rightarrow> nat \<Rightarrow> nat \<Rightarrow> nat \<Rightarrow> io_result \<times> 'c" where
  "frag_loop put c b chunk i tot =
     (if chunk = 0 \<or> length b \<le> i then ((tot, None), c)
      else let e = (if i + chunk > length b then length b else i + chunk)
        in case put c (take (e - i) (drop i b)) of
             ((n, Some er), c') \<Rightarrow> ((tot + n, Some er), c')
           | ((n, None), c') \<Rightarrow> frag_loop put c' b chunk (i + chunk) (tot + n))"
  by pat_completeness auto
termination
  by (relation "measure (\<lambda>(put, c, b, chunk, i, tot). length b - i)") auto

declare frag_loop.simps [simp del]

definition frag_Write ::
  "('c \<Rightarrow> bytes \<Rightarrow> io_result \<times> 'c) \<Rightarrow> 'c fragConn \<Rightarrow> bytes \<Rightarrow> io_result \<times> 'c fragConn" where
  "frag_Write put c b =
     (if firstDone c \<or> f_chunk c \<le> 0
      then (case put (f_conn c) b of (r, k) \<Rightarrow> (r, c\<lparr>f_conn := k\<rparr>))
      else (case frag_loop put (f_conn c) b (nat (f_chunk c)) 0 0 of
              (r, k) \<Rightarrow> (r, c\<lparr>firstDone := True, f_conn := k\<rparr>)))"

text \<open>The reference cutting of a list into pieces of \<open>n\<close> elements.\<close>

function pieces :: "nat \<Rightarrow> 'a list \<Rightarrow> 'a list list" where
  "pieces n xs = (if n = 0 \<or> xs = [] then [] else take n xs # pieces n (drop n xs))"
  by pat_completeness auto
termination
  by (relation "measure (\<lambda>(n, xs). length xs)") auto

declare pieces.simps [simp del]

lemma pieces_Nil [simp]: "pieces n [] = []"
  by (simp add: pieces.simps)

lemma concat_pieces: "0 < n \<Longrightarrow> concat (pieces n xs) = xs"
proof (induction n xs rule: pieces.induct)
  case (1 n xs)
  then show ?case by (cases "xs = []") (simp_all add: pieces.simps [of n xs])
qed

lemma pieces_bounds: "p \<in> set (pieces n xs) \<Longrightarrow> p \<noteq> [] \<and> length p \<le> n"
proof (induction n xs rule: pieces.induct)
  case (1 n xs)
  then show ?case
    by (cases "n = 0 \<or> xs = []") (auto simp: pieces.simps [of n xs])
qed

lemma pieces_all_but_last_full:
  "p \<in> set (butlast (pieces n xs)) \<Longrightarrow> length p = n"
proof (induction n xs rule: pieces.induct)
  case (1 n xs)
  show ?case
  proof (cases "n = 0 \<or> length xs \<le> n")
    case True
    with "1.prems" show ?thesis by (auto simp: pieces.simps [of n xs] split: if_splits)
  next
    case False
    then have "drop n xs \<noteq> []" "n \<noteq> 0" "xs \<noteq> []" by auto
    with 1 False show ?thesis
      by (auto simp: pieces.simps [of n xs] split: if_splits)
  qed
qed

locale frag_transport = conn_writer
begin

lemma frag_loop_sent:
  assumes "frag_loop put c b chunk i tot = ((n, e), c')" and "0 < chunk"
  shows "\<exists>m. n = tot + m \<and> m \<le> length b - i \<and> sent c' = sent c @ take m (drop i b)
           \<and> (e = None \<longrightarrow> m = length b - i)"
  using assms(1)
proof (induction "length b - i" arbitrary: c i tot rule: less_induct)
  case less
  note unf = frag_loop.simps [of put c b chunk i tot]
  show ?case
  proof (cases "length b \<le> i")
    case True
    with less.prems show ?thesis by (simp add: unf)
  next
    case False
    define e1 where "e1 = (if i + chunk > length b then length b else i + chunk)"
    have e1: "i < e1" "e1 \<le> length b" using False assms(2) by (auto simp: e1_def)
    obtain n1 r c1 where p: "put c (take (e1 - i) (drop i b)) = ((n1, r), c1)"
      by (metis prod.exhaust)
    show ?thesis
    proof (cases r)
      case (Some er)
      with p less.prems False assms(2) have "n = tot + n1" "e = Some er" "c' = c1"
        by (auto simp: unf e1_def [symmetric] Let_def)
      with write_short [of c "take (e1 - i) (drop i b)" n1 er c1] p Some e1 show ?thesis
        by (intro exI [of _ n1]) (auto simp: min_absorb1)
    next
      case None
      note w = write_full [OF p [unfolded None]]
      have n1: "n1 = e1 - i" using w e1 by simp
      from p None less.prems False assms(2)
      have rec: "frag_loop put c1 b chunk (i + chunk) (tot + n1) = ((n, e), c')"
        by (simp add: unf e1_def [symmetric] Let_def)
      have lt: "length b - (i + chunk) < length b - i" using False assms(2) by simp
      from less.hyps [OF lt rec] obtain m where
        m: "n = tot + n1 + m" "m \<le> length b - (i + chunk)"
          "sent c' = sent c1 @ take m (drop (i + chunk) b)"
          "e = None \<longrightarrow> m = length b - (i + chunk)"
        by blast
      have "take (n1 + m) (drop i b) = take n1 (drop i b) @ take m (drop (i + chunk) b)"
        using m(2) n1 by (cases "i + chunk > length b") (auto simp: e1_def take_add add.commute)
      with m w n1 e1 show ?thesis
        by (intro exI [of _ "n1 + m"]) (auto simp: e1_def split: if_splits)
    qed
  qed
qed

end

sublocale frag_transport \<subseteq> frag: conn_writer "frag_Write put" "\<lambda>c. sent (f_conn c)"
proof
  fix c p n c'
  assume "frag_Write put c p = ((n, None), c')"
  then show "n = length p \<and> sent (f_conn c') = sent (f_conn c) @ p"
    using frag_loop_sent [of "f_conn c" p "nat (f_chunk c)" 0 0 n None]
    by (auto simp: frag_Write_def split: if_splits prod.splits dest: write_full)
next
  fix c p n e c'
  assume "frag_Write put c p = ((n, Some e), c')"
  then show "n \<le> length p \<and> sent (f_conn c') = sent (f_conn c) @ take n p"
    using frag_loop_sent [of "f_conn c" p "nat (f_chunk c)" 0 0 n "Some e"]
    by (auto simp: frag_Write_def split: if_splits prod.splits dest: write_short)
qed

context frag_transport
begin

lemma frag_contract:
  assumes "frag_Write put c b = ((n, e), c')"
  shows "n \<le> length b \<and> sent (f_conn c') = sent (f_conn c) @ take n b \<and> (e = None \<longrightarrow> n = length b)"
  using frag.write_count [OF assms] frag.write_full [of c b n c'] assms by (cases e) auto

end

interpretation tcp_frag: frag_transport conn_write conn_sent
  by unfold_locales

subsection \<open>What the peer's network sees of the first write\<close>

lemma frag_loop_done: "length b \<le> i \<Longrightarrow> frag_loop put c b chunk i tot = ((tot, None), c)"
  by (simp add: frag_loop.simps)

lemma frag_loop_wire:
  assumes "\<not> is_closed c" and "quota c = None" and "0 < chunk" and "i \<le> length b"
  shows "frag_loop conn_write c b chunk i tot =
    ((tot + (length b - i), None), c\<lparr>wire := wire c @ pieces chunk (drop i b)\<rparr>)"
  using assms(1,2,4)
proof (induction "length b - i" arbitrary: c i tot rule: less_induct)
  case less
  note unf = frag_loop.simps [of conn_write c b chunk i tot]
  show ?case
  proof (cases "i < length b")
    case False
    with less.prems show ?thesis by (simp add: frag_loop_done)
  next
    case True
    define e1 where "e1 = (if i + chunk > length b then length b else i + chunk)"
    let ?p = "take chunk (drop i b)" and ?c = "c\<lparr>wire := wire c @ [take chunk (drop i b)]\<rparr>"
    have e1: "take (e1 - i) (drop i b) = ?p" by (simp add: e1_def)
    have w: "conn_write c ?p = ((length ?p, None), ?c)"
      using less.prems by (simp add: conn_write_def)
    have step: "frag_loop conn_write c b chunk i tot
        = frag_loop conn_write ?c b chunk (i + chunk) (tot + length ?p)"
      using True assms(3) by (simp add: unf e1_def [symmetric] e1 w Let_def)
    show ?thesis
    proof (cases "i + chunk \<le> length b")
      case True
      have "frag_loop conn_write ?c b chunk (i + chunk) (tot + length ?p)
        = ((tot + length ?p + (length b - (i + chunk)), None),
           ?c\<lparr>wire := wire ?c @ pieces chunk (drop (i + chunk) b)\<rparr>)"
        using True \<open>i < length b\<close> assms(3) less.prems by (intro less.hyps) auto
      with step True \<open>i < length b\<close> assms(3) show ?thesis
        by (simp add: pieces.simps [of chunk "drop i b"] add.commute)
    next
      case False
      with step \<open>i < length b\<close> assms(3) show ?thesis
        by (simp add: frag_loop_done pieces.simps [of chunk "drop i b"])
    qed
  qed
qed

lemma frag_Write_first:
  assumes "\<not> is_closed (f_conn c)" and "quota (f_conn c) = None"
    and "\<not> firstDone c" and "0 < f_chunk c"
  shows "frag_Write conn_write c b = ((length b, None),
    c\<lparr>firstDone := True, f_conn := (f_conn c)\<lparr>wire := wire (f_conn c) @ pieces (nat (f_chunk c)) b\<rparr>\<rparr>)"
  using assms by (simp add: frag_Write_def frag_loop_wire)

text \<open>
  (C25) The fragmenting layer is transparent: over any connection that honours the
  contract of \<open>io.Writer\<close> it honours it too. A write without an error has passed on
  every byte, in order; with an error, exactly the bytes it reports.
\<close>

theorem frag_write_transparent:
  assumes "conn_writer put sent" and "frag_Write put c b = ((n, e), c')"
  shows "n \<le> length b \<and> sent (f_conn c') = sent (f_conn c) @ take n b \<and> (e = None \<longrightarrow> n = length b)"
proof -
  have ft: "frag_transport put sent" using assms(1) by (simp add: frag_transport_def)
  show ?thesis by (rule frag_transport.frag_contract [OF ft assms(2)])
qed

theorem frag_write_transparent_witness:
  "\<exists>n e c'. frag_Write conn_write
      \<lparr>f_conn = (fresh_conn [])\<lparr>quota := Some 5\<rparr>, firstDone = False, f_chunk = 4\<rparr> [1, 2, 3, 4, 5, 6, 7]
      = ((n, e), c') \<and> n \<le> 7 \<and> conn_sent (f_conn c') = take n [1, 2, 3, 4, 5, 6, 7]"
proof -
  let ?c = "\<lparr>f_conn = (fresh_conn [])\<lparr>quota := Some 5\<rparr>, firstDone = False, f_chunk = 4\<rparr>"
  obtain n e c' where r: "frag_Write conn_write ?c [1, 2, 3, 4, 5, 6, 7] = ((n, e), c')"
    by (metis prod.exhaust)
  from frag_write_transparent [OF tcp.conn_writer_axioms r] r show ?thesis
    by (auto simp: conn_sent_def fresh_conn_def)
qed

text \<open>
  On a healthy connection the first write (the ClientHello) leaves as segments of
  at most \<open>frag\<close> bytes, every one but the last of exactly that size, whose
  concatenation is the data; every later write leaves as one segment.
\<close>

theorem frag_first_write_segments:
  assumes "\<not> is_closed k" and "quota k = None" and "0 < chunk"
    and "frag_Write conn_write \<lparr>f_conn = k, firstDone = False, f_chunk = chunk\<rparr> hello = (r1, c1)"
    and "frag_Write conn_write c1 later = (r2, c2)"
  shows "\<exists>segs. wire (f_conn c2) = wire k @ segs @ [later] \<and> concat segs = hello
    \<and> (\<forall>s \<in> set segs. s \<noteq> [] \<and> int (length s) \<le> chunk)
    \<and> (\<forall>s \<in> set (butlast segs). int (length s) = chunk)
    \<and> r1 = (length hello, None) \<and> r2 = (length later, None)"
proof -
  let ?segs = "pieces (nat chunk) hello"
  from assms(1-4) have c1: "r1 = (length hello, None)"
    "c1 = \<lparr>f_conn = k\<lparr>wire := wire k @ ?segs\<rparr>, firstDone = True, f_chunk = chunk\<rparr>"
    using frag_Write_first [of "\<lparr>f_conn = k, firstDone = False, f_chunk = chunk\<rparr>" hello] by auto
  from assms(1,2,5) c1(2) have "r2 = (length later, None)" "wire (f_conn c2) = wire k @ ?segs @ [later]"
    by (auto simp: frag_Write_def conn_write_def)
  moreover have "\<forall>s \<in> set ?segs. s \<noteq> [] \<and> int (length s) \<le> chunk"
    using pieces_bounds [of _ "nat chunk" hello] assms(3) by force
  moreover have "\<forall>s \<in> set (butlast ?segs). int (length s) = chunk"
    using pieces_all_but_last_full [of _ "nat chunk" hello] assms(3) by force
  ultimately show ?thesis
    using c1(1) assms(3) by (intro exI [of _ ?segs]) (simp add: concat_pieces)
qed

theorem frag_first_write_segments_witness:
  "\<exists>r1 c1 r2 c2 segs.
     frag_Write conn_write \<lparr>f_conn = fresh_conn [], firstDone = False, f_chunk = 2\<rparr> [1, 2, 3, 4, 5] = (r1, c1)
   \<and> frag_Write conn_write c1 [6, 7, 8] = (r2, c2)
   \<and> wire (f_conn c2) = segs @ [[6, 7, 8]] \<and> concat segs = [1, 2, 3, 4, 5]
   \<and> (\<forall>s \<in> set segs. length s \<le> 2)"
proof -
  obtain r1 c1 where 1: "frag_Write conn_write
      \<lparr>f_conn = fresh_conn [], firstDone = False, f_chunk = 2\<rparr> [1, 2, 3, 4, 5] = (r1, c1)"
    by (metis prod.exhaust)
  obtain r2 c2 where 2: "frag_Write conn_write c1 [6, 7, 8] = (r2, c2)"
    by (metis prod.exhaust)
  obtain segs where "wire (f_conn c2) = segs @ [[6, 7, 8]]" "concat segs = [1, 2, 3, 4, 5]"
    "\<forall>s \<in> set segs. length s \<le> 2"
    using frag_first_write_segments [OF _ _ _ 1 2] by (auto simp: fresh_conn_def)
  with 1 2 show ?thesis by blast
qed

subsection \<open>Certificates and the listener\<close>

datatype key_usage = DigitalSignature | KeyEncipherment

datatype tls_version = TLS12 | TLS13

datatype cipher_suite =
    ECDHE_ECDSA_AES_128_GCM_SHA256
  | ECDHE_RSA_AES_128_GCM_SHA256
  | ECDHE_ECDSA_AES_256_GCM_SHA384
  | ECDHE_RSA_AES_256_GCM_SHA384
  | ECDHE_ECDSA_CHACHA20_POLY1305
  | ECDHE_RSA_CHACHA20_POLY1305

record certificate_template =
  SerialNumber :: nat
  CommonName :: string
  NotBefore :: time
  NotAfter :: time
  KeyUsage :: "key_usage list"
  ServerAuth :: bool
  BasicConstraintsValid :: bool
  DNSNames :: "string list"

record 'key tls_certificate =
  derBytes :: bytes
  PrivateKey :: 'key

text \<open>
  The cryptography is a parameter: \<open>ecdsa_key\<close> draws a P-256 key, \<open>rand_int\<close> is the
  draw behind \<open>rand.Int\<close>, \<open>create_certificate\<close> signs a template with the key.
\<close>

record ('w, 'key) crypto_env =
  ecdsa_key :: "'w \<Rightarrow> (go_error + 'key) \<times> 'w"
  rand_int :: "'w \<Rightarrow> nat \<times> 'w"
  clock :: "'w \<Rightarrow> time"
  create_certificate :: "'w \<Rightarrow> certificate_template \<Rightarrow> 'key \<Rightarrow> (go_error + bytes) \<times> 'w"

definition cert_template :: "time \<Rightarrow> nat \<Rightarrow> string \<Rightarrow> certificate_template" where
  "cert_template now serial sni =
     \<lparr>SerialNumber = serial, CommonName = sni,
      NotBefore = now - 24 * 3600 * second, NotAfter = now + 365 * 24 * 3600 * second,
      KeyUsage = [DigitalSignature, KeyEncipherment], ServerAuth = True,
      BasicConstraintsValid = True, DNSNames = [sni]\<rparr>"

definition generateSelfSignedCert ::
  "('w, 'key) crypto_env \<Rightarrow> 'w \<Rightarrow> string \<Rightarrow> (go_error + 'key tls_certificate) \<times> 'w" where
  "generateSelfSignedCert env w sni =
     (case ecdsa_key env w of
        (Inl e, w1) \<Rightarrow> (Inl e, w1)
      | (Inr priv, w1) \<Rightarrow>
          (case rand_int env w1 of (draw, w2) \<Rightarrow>
             (case create_certificate env w2
                     (cert_template (clock env w2) (draw mod 2 ^ 128) sni) priv of
                (Inl e, w3) \<Rightarrow> (Inl e, w3)
              | (Inr der, w3) \<Rightarrow> (Inr \<lparr>derBytes = der, PrivateKey = priv\<rparr>, w3))))"

record 'key server_tls_config =
  Certificates :: "'key tls_certificate list"
  MinVersion :: tls_version
  MaxVersion :: tls_version
  CipherSuites :: "cipher_suite list"

definition tls_server_config :: "'key tls_certificate \<Rightarrow> 'key server_tls_config" where
  "tls_server_config cert =
     \<lparr>Certificates = [cert], MinVersion = TLS12, MaxVersion = TLS13,
      CipherSuites =
        [ECDHE_ECDSA_AES_128_GCM_SHA256, ECDHE_RSA_AES_128_GCM_SHA256,
         ECDHE_ECDSA_AES_256_GCM_SHA384, ECDHE_RSA_AES_256_GCM_SHA384,
         ECDHE_ECDSA_CHACHA20_POLY1305, ECDHE_RSA_CHACHA20_POLY1305]\<rparr>"

definition NewTLSListener ::
  "('w, 'key) crypto_env \<Rightarrow> ('w \<Rightarrow> string \<Rightarrow> 'key server_tls_config \<Rightarrow> (go_error + 'l) \<times> 'w)
     \<Rightarrow> 'w \<Rightarrow> string \<Rightarrow> string \<Rightarrow> (go_error + 'l) \<times> 'w" where
  "NewTLSListener env tls_listen w addr sni =
     (case generateSelfSignedCert env w sni of
        (Inl e, w1) \<Rightarrow> (Inl (Wrapped ''certificate'' e), w1)
      | (Inr cert, w1) \<Rightarrow> tls_listen w1 addr (tls_server_config cert))"

subsection \<open>Dialling\<close>

record client_tls_config =
  ServerName :: string
  InsecureSkipVerify :: bool
  VersionRange :: "(tls_version \<times> tls_version) option"

datatype 'k under = RawTCP 'k | FragTCP 'k int

datatype 'k tls_conn =
    DirectTLS 'k client_tls_config
  | UTLSChrome "'k under" client_tls_config
  | StdTLS "'k under" client_tls_config

record ('w, 'k) dial_env =
  tls_dial :: "'w \<Rightarrow> string \<Rightarrow> client_tls_config \<Rightarrow> (go_error + 'k) \<times> 'w"
  tcp_dial :: "'w \<Rightarrow> string \<Rightarrow> (go_error + 'k) \<times> 'w"
  utls_handshake :: "'w \<Rightarrow> 'k under \<Rightarrow> client_tls_config \<Rightarrow> go_error option \<times> 'w"
  tls_handshake :: "'w \<Rightarrow> 'k under \<Rightarrow> client_tls_config \<Rightarrow> go_error option \<times> 'w"
  close_raw :: "'w \<Rightarrow> 'k \<Rightarrow> 'w"

definition std_client_config :: "string \<Rightarrow> client_tls_config" where
  "std_client_config sni =
     \<lparr>ServerName = sni, InsecureSkipVerify = True, VersionRange = Some (TLS12, TLS13)\<rparr>"

definition utls_client_config :: "string \<Rightarrow> client_tls_config" where
  "utls_client_config sni = \<lparr>ServerName = sni, InsecureSkipVerify = True, VersionRange = None\<rparr>"

definition dialTLS ::
  "('w, 'k) dial_env \<Rightarrow> bool \<Rightarrow> int \<Rightarrow> 'w \<Rightarrow> string \<Rightarrow> string \<Rightarrow> (go_error + 'k tls_conn) \<times> 'w" where
  "dialTLS env useUTLS fragSize w addr sni =
     (if \<not> useUTLS \<and> fragSize \<le> 0
      then (case tls_dial env w addr (std_client_config sni) of
              (Inl e, w1) \<Rightarrow> (Inl e, w1)
            | (Inr k, w1) \<Rightarrow> (Inr (DirectTLS k (std_client_config sni)), w1))
      else (case tcp_dial env w addr of
              (Inl e, w1) \<Rightarrow> (Inl e, w1)
            | (Inr raw, w1) \<Rightarrow>
                let un = (if fragSize > 0 then FragTCP raw fragSize else RawTCP raw)
                in if useUTLS
                   then (case utls_handshake env w1 un (utls_client_config sni) of
                           (Some e, w2) \<Rightarrow> (Inl (Wrapped ''uTLS handshake'' e), close_raw env w2 raw)
                         | (None, w2) \<Rightarrow> (Inr (UTLSChrome un (utls_client_config sni)), w2))
                   else (case tls_handshake env w1 un (std_client_config sni) of
                           (Some e, w2) \<Rightarrow> (Inl e, close_raw env w2 raw)
                         | (None, w2) \<Rightarrow> (Inr (StdTLS un (std_client_config sni)), w2))))"

fun under_raw :: "'k under \<Rightarrow> 'k" where
  "under_raw (RawTCP k) = k"
| "under_raw (FragTCP k n) = k"

fun tls_raw :: "'k tls_conn \<Rightarrow> 'k" where
  "tls_raw (DirectTLS k cfg) = k"
| "tls_raw (UTLSChrome u cfg) = under_raw u"
| "tls_raw (StdTLS u cfg) = under_raw u"

fun tls_cfg :: "'k tls_conn \<Rightarrow> client_tls_config" where
  "tls_cfg (DirectTLS k cfg) = cfg"
| "tls_cfg (UTLSChrome u cfg) = cfg"
| "tls_cfg (StdTLS u cfg) = cfg"

fun tls_frag :: "'k tls_conn \<Rightarrow> int" where
  "tls_frag (UTLSChrome (FragTCP k n) cfg) = n"
| "tls_frag (StdTLS (FragTCP k n) cfg) = n"
| "tls_frag c = 0"

text \<open>
  What dialling relies on: \<open>live w\<close> is the set of sockets open in the world \<open>w\<close>. A
  successful dial opens one new socket, a failed one none; a handshake opens and
  closes none (\<open>Handshake\<close> leaves the socket to its caller, as package \<open>tls\<close>
  documents); closing removes the socket.
\<close>

definition opens :: "('w \<Rightarrow> 'k set) \<Rightarrow> 'w \<Rightarrow> ('c \<Rightarrow> 'k) \<Rightarrow> (go_error + 'c) \<times> 'w \<Rightarrow> bool" where
  "opens live w raw res \<longleftrightarrow>
     (case fst res of
        Inl _ \<Rightarrow> live (snd res) = live w
      | Inr c \<Rightarrow> raw c \<notin> live w \<and> live (snd res) = insert (raw c) (live w))"

definition dial_env_ok :: "('w, 'k) dial_env \<Rightarrow> ('w \<Rightarrow> 'k set) \<Rightarrow> bool" where
  "dial_env_ok env live \<longleftrightarrow>
     (\<forall>w a cfg. opens live w id (tls_dial env w a cfg))
   \<and> (\<forall>w a. opens live w id (tcp_dial env w a))
   \<and> (\<forall>w u cfg. live (snd (utls_handshake env w u cfg)) = live w)
   \<and> (\<forall>w u cfg. live (snd (tls_handshake env w u cfg)) = live w)
   \<and> (\<forall>w k. live (close_raw env w k) = live w - {k})"

lemma opens_Inl [simp]: "opens live w raw (Inl e, w') \<longleftrightarrow> live w' = live w"
  by (simp add: opens_def)

lemma opens_Inr [simp]:
  "opens live w raw (Inr c, w') \<longleftrightarrow> raw c \<notin> live w \<and> live w' = insert (raw c) (live w)"
  by (simp add: opens_def)

lemma dial_env_okD:
  assumes "dial_env_ok env live"
  shows "opens live w id (tls_dial env w a cfg)" "opens live w id (tcp_dial env w a)"
    "live (snd (utls_handshake env w u cfg)) = live w"
    "live (snd (tls_handshake env w u cfg)) = live w"
    "live (close_raw env w k) = live w - {k}"
  using assms by (simp_all add: dial_env_ok_def)

lemma under_raw_choice [simp]: "under_raw (if b then FragTCP k n else RawTCP k) = k"
  by simp

lemma dialTLS_direct_opens:
  assumes "dial_env_ok env live"
  shows "opens live w tls_raw (dialTLS env False 0 w addr sni)"
  using dial_env_okD(1) [OF assms, of w addr "std_client_config sni"]
  by (auto simp: dialTLS_def split: prod.splits sum.splits)

lemma dialTLS_opens:
  assumes "dial_env_ok env live"
  shows "opens live w tls_raw (dialTLS env u f w addr sni)"
proof (cases "\<not> u \<and> f \<le> 0")
  case True
  then have "dialTLS env u f w addr sni = dialTLS env False 0 w addr sni"
    by (simp add: dialTLS_def)
  with dialTLS_direct_opens [OF assms] show ?thesis by simp
next
  case False
  obtain r w1 where d: "tcp_dial env w addr = (r, w1)" by (metis prod.exhaust)
  note opened = dial_env_okD(2) [OF assms, of w addr, unfolded d]
  show ?thesis
  proof (cases r)
    case (Inl e)
    with False d opened show ?thesis by (auto simp: dialTLS_def)
  next
    case (Inr k)
    let ?un = "if f > 0 then FragTCP k f else RawTCP k"
    obtain r2 w2 where h: "utls_handshake env w1 ?un (utls_client_config sni) = (r2, w2)"
      by (metis prod.exhaust)
    obtain r3 w3 where g: "tls_handshake env w1 ?un (std_client_config sni) = (r3, w3)"
      by (metis prod.exhaust)
    have "live w2 = live w1" "live w3 = live w1"
      using dial_env_okD(3,4) [OF assms] h g by (metis snd_conv)+
    with False d opened Inr h g dial_env_okD(5) [OF assms] show ?thesis
      by (cases u; cases r2; cases r3) (auto simp: dialTLS_def Let_def)
  qed
qed

text \<open>
  (C17) No socket leaks: when \<open>dialTLS\<close> fails, for whatever reason and in whichever of
  its three modes, the open sockets are those that were open before; when it
  succeeds there is exactly one more, the one under the connection it returns.
\<close>

theorem dialTLS_no_leak:
  assumes "dial_env_ok env live" and "dialTLS env useUTLS fragSize w addr sni = (res, w')"
  shows "case res of
      Inl _ \<Rightarrow> live w' = live w
    | Inr c \<Rightarrow> tls_raw c \<notin> live w \<and> live w' = insert (tls_raw c) (live w)"
  using dialTLS_opens [OF assms(1), of w useUTLS fragSize addr sni] assms(2)
  by (auto simp: opens_def split: sum.splits)

definition demo_dial :: "(nat list, nat) dial_env" where
  "demo_dial =
     \<lparr>tls_dial = (\<lambda>w a cfg. let k = Suc (foldr max w 0) in (Inr k, k # w)),
      tcp_dial = (\<lambda>w a. if a = '''' then (Inl (OtherErr ''missing address''), w)
                  else let k = Suc (foldr max w 0) in (Inr k, k # w)),
      utls_handshake = (\<lambda>w u cfg. (None, w)),
      tls_handshake = (\<lambda>w u cfg. (if u = FragTCP (under_raw u) 1 then Some EOF else None, w)),
      close_raw = (\<lambda>w k. filter (\<lambda>x. x \<noteq> k) w)\<rparr>"

lemma demo_fresh: "Suc (foldr max w 0) \<notin> set w"
proof -
  have "x \<in> set w \<Longrightarrow> x \<le> foldr max w 0" for x :: nat
    by (induction w) auto
  then show ?thesis by (meson Suc_n_not_le_n)
qed

lemma demo_dial_ok: "dial_env_ok demo_dial set"
  by (auto simp: dial_env_ok_def demo_dial_def demo_fresh opens_def Let_def)

theorem dialTLS_no_leak_witness:
  "dialTLS demo_dial False 1 [4] ''a:443'' ''x'' = (Inl EOF, [4]) \<and> set [4 :: nat] = {4}"
proof -
  have r: "dialTLS demo_dial False 1 [4] ''a:443'' ''x'' = (Inl EOF, [4])"
    by (simp add: dialTLS_def demo_dial_def)
  from dialTLS_no_leak [OF demo_dial_ok r] r show ?thesis by simp
qed

text \<open>
  The stack that is dialled: a connection \<open>dialTLS\<close> returns always announces the
  requested server name, never verifies the peer's certificate, sends its
  ClientHello through \<open>fragConn\<close> with the configured size exactly when \<open>-frag\<close> is
  positive, and has the Chrome fingerprint exactly when \<open>-utls\<close> is set.
\<close>

theorem dialTLS_layers:
  assumes "dialTLS env useUTLS fragSize w addr sni = (Inr c, w')"
  shows "ServerName (tls_cfg c) = sni \<and> InsecureSkipVerify (tls_cfg c)
    \<and> tls_frag c = max 0 fragSize
    \<and> (useUTLS \<longleftrightarrow> (\<exists>u cfg. c = UTLSChrome u cfg))"
  using assms
  by (auto simp: dialTLS_def Let_def std_client_config_def utls_client_config_def
      split: if_splits prod.splits sum.splits option.splits)

theorem dialTLS_layers_witness:
  "dialTLS demo_dial True 4 [] ''a:443'' ''x'' =
     (Inr (UTLSChrome (FragTCP 1 4) (utls_client_config ''x'')), [1])
   \<and> ServerName (utls_client_config ''x'') = ''x''"
proof -
  have r: "dialTLS demo_dial True 4 [] ''a:443'' ''x'' =
     (Inr (UTLSChrome (FragTCP 1 4) (utls_client_config ''x'')), [1])"
    by (simp add: dialTLS_def demo_dial_def)
  from dialTLS_layers [OF r] r show ?thesis by simp
qed

text \<open>
  The certificate the server presents: \<open>generateSelfSignedCert\<close> signs a template
  that names the configured domain, whose serial number has at most 128 bits, and
  which is valid from a day before the clock at signing time until a year after;
  a failure of the key generator or of the signer is passed on, wrapped, by
  \<open>NewTLSListener\<close>, without opening a listener.
\<close>

theorem tls_listener_certificate:
  assumes "NewTLSListener env tls_listen w addr sni = (res, w')"
  shows "(\<exists>e. res = Inl (Wrapped ''certificate'' e))
    \<or> (\<exists>cert template w1 w2. tls_listen w1 addr (tls_server_config cert) = (res, w')
         \<and> create_certificate env w2 template (PrivateKey cert) = (Inr (derBytes cert), w1)
         \<and> DNSNames template = [sni] \<and> CommonName template = sni
         \<and> SerialNumber template < 2 ^ 128
         \<and> NotBefore template < clock env w2 \<and> clock env w2 < NotAfter template)"
proof (cases "generateSelfSignedCert env w sni")
  case (Pair r w1)
  show ?thesis
  proof (cases r)
    case (Inl e)
    with Pair assms show ?thesis by (auto simp: NewTLSListener_def)
  next
    case (Inr cert)
    with Pair obtain w2 draw where
      "create_certificate env w2 (cert_template (clock env w2) (draw mod 2 ^ 128) sni)
         (PrivateKey cert) = (Inr (derBytes cert), w1)"
      by (auto simp: generateSelfSignedCert_def split: prod.splits sum.splits)
    moreover have "tls_listen w1 addr (tls_server_config cert) = (res, w')"
      using Pair Inr assms by (simp add: NewTLSListener_def)
    ultimately show ?thesis
      by (intro disjI2 exI [of _ cert] exI [of _ "cert_template (clock env w2) (draw mod 2 ^ 128) sni"]
          exI [of _ w1] exI [of _ w2]) (simp add: cert_template_def)
  qed
qed

definition demo_crypto :: "(unit, nat) crypto_env" where
  "demo_crypto = \<lparr>ecdsa_key = (\<lambda>w. (Inr 5, w)), rand_int = (\<lambda>w. (9, w)), clock = (\<lambda>w. 1000),
     create_certificate = (\<lambda>w t k. (Inr [1, 2], w))\<rparr>"

theorem tls_listener_certificate_witness:
  "NewTLSListener demo_crypto (\<lambda>w a cfg. (Inr a, w)) () '':443'' ''x'' = (Inr '':443'', ())
   \<and> (\<exists>template :: certificate_template. DNSNames template = [''x''] \<and> SerialNumber template < 2 ^ 128)"
proof -
  have r: "NewTLSListener demo_crypto (\<lambda>w a cfg. (Inr a, w)) () '':443'' ''x'' = (Inr '':443'', ())"
    by (simp add: NewTLSListener_def generateSelfSignedCert_def demo_crypto_def)
  from tls_listener_certificate [OF r] obtain template :: certificate_template where
    "DNSNames template = [''x'']" "SerialNumber template < 2 ^ 128" by auto
  with r show ?thesis by blast
qed

end
