(* ===== verification/Go_Strings.thy ===== *)
theory Go_Strings
  imports Tunnel_Prelude
begin

text \<open>
  The functions of the packages \<open>strings\<close>, \<open>strconv\<close> and \<open>encoding/hex\<close> the
  sources call, on Go strings, which are byte strings (\<open>string\<close>, one \<open>char\<close> per
  byte). White space is what \<open>unicode.IsSpace\<close> accepts, as the UTF-8 byte
  sequences of those runes: since no such sequence starts with a continuation
  byte, matching them from the left or from the right finds the same runes as
  decoding the text.
\<close>

subsection \<open>Decimal numerals\<close>

definition digit_char :: "nat \<Rightarrow> char" where
  "digit_char d = char_of (48 + d)"

fun decimal :: "nat \<Rightarrow> string" where
  "decimal n = (if n < 10 then [digit_char n] else decimal (n div 10) @ [digit_char (n mod 10)])"

declare decimal.simps [simp del]

fun undecimal :: "nat \<Rightarrow> string \<Rightarrow> nat" where
  "undecimal acc [] = acc"
| "undecimal acc (c # cs) = undecimal (10 * acc + (of_char c - 48)) cs"

lemma of_char_digit [simp]: "d < 10 \<Longrightarrow> of_char (digit_char d) = 48 + d"
  by (simp add: digit_char_def)

lemma undecimal_append: "undecimal a (xs @ ys) = undecimal (undecimal a xs) ys"
  by (induction xs arbitrary: a) auto

lemma undecimal_decimal [simp]: "undecimal 0 (decimal n) = n"
proof (induction n rule: decimal.induct)
  case (1 n)
  then show ?case
    by (subst decimal.simps) (auto simp: undecimal_append)
qed

lemma decimal_inj: "decimal m = decimal n \<Longrightarrow> m = n"
  by (metis undecimal_decimal)

lemma decimal_not_Nil [simp]: "decimal n \<noteq> []"
  by (subst decimal.simps) simp

lemma decimal_digits: "c \<in> set (decimal n) \<Longrightarrow> \<exists>d < 10. c = digit_char d"
proof (induction n rule: decimal.induct)
  case (1 n)
  then show ?case
  proof (cases "c = digit_char (n mod 10)")
    case True
    then show ?thesis by (intro exI [of _ "n mod 10"]) simp
  next
    case False
    with 1 show ?thesis by (auto simp: decimal.simps [of n] split: if_splits)
  qed
qed

lemma length_decimal: "n < 10 ^ Suc k \<Longrightarrow> length (decimal n) \<le> Suc k"
proof (induction k arbitrary: n)
  case 0
  then show ?case by (subst decimal.simps) simp
next
  case (Suc k)
  have "n div 10 < 10 ^ Suc k" using Suc.prems by (simp add: less_mult_imp_div_less)
  with Suc.IH [of "n div 10"] show ?case by (subst decimal.simps) simp
qed

subsection \<open>Splitting, trimming and searching\<close>

definition space_seqs :: "string list" where
  "space_seqs =
     [[CHR 0x09], [CHR 0x0A], [CHR 0x0B], [CHR 0x0C], [CHR 0x0D], [CHR 0x20],
      [CHR 0xC2, CHR 0x85], [CHR 0xC2, CHR 0xA0], [CHR 0xE1, CHR 0x9A, CHR 0x80]]
     @ map (\<lambda>b. [CHR 0xE2, CHR 0x80, char_of b]) ([128 ..< 139] @ [168, 169, 175 :: nat])
     @ [[CHR 0xE2, CHR 0x81, CHR 0x9F], [CHR 0xE3, CHR 0x80, CHR 0x80]]"

definition has_prefix :: "string \<Rightarrow> string \<Rightarrow> bool" where
  "has_prefix s p \<longleftrightarrow> take (length p) s = p"

definition match_any :: "string list \<Rightarrow> string \<Rightarrow> nat option" where
  "match_any seqs s =
     (case filter (\<lambda>q. q \<noteq> [] \<and> has_prefix s q) seqs of [] \<Rightarrow> None | q # _ \<Rightarrow> Some (length q))"

lemma match_any_bounds: "match_any seqs s = Some n \<Longrightarrow> 0 < n \<and> n \<le> length s"
proof -
  assume "match_any seqs s = Some n"
  then obtain q where q: "q \<in> set (filter (\<lambda>q. q \<noteq> [] \<and> has_prefix s q) seqs)" "n = length q"
    by (auto simp: match_any_def simp del: set_filter split: list.splits)
  then have ne: "q \<noteq> []" and "length (take (length q) s) = length q"
    by (auto simp: has_prefix_def)
  then have "length q \<le> length s" by simp
  with ne q(2) show ?thesis by simp
qed

function trim_start :: "string list \<Rightarrow> string \<Rightarrow> string" where
  "trim_start seqs s =
     (case match_any seqs s of None \<Rightarrow> s | Some n \<Rightarrow> trim_start seqs (drop n s))"
  by pat_completeness auto
termination
  by (relation "measure (\<lambda>(seqs, s). length s)") (auto dest: match_any_bounds)

declare trim_start.simps [simp del]

text \<open>\<open>strings.TrimSpace\<close>; the end is trimmed by reading text and sequences backwards.\<close>

definition TrimSpace :: "string \<Rightarrow> string" where
  "TrimSpace s = rev (trim_start (map rev space_seqs) (rev (trim_start space_seqs s)))"

text \<open>\<open>strings.Fields\<close>: \<open>take_word\<close> reads up to the next white space.\<close>

fun take_word :: "string \<Rightarrow> string \<times> string" where
  "take_word [] = ([], [])"
| "take_word (c # s) =
     (if match_any space_seqs (c # s) \<noteq> None then ([], c # s)
      else case take_word s of (w, r) \<Rightarrow> (c # w, r))"

lemma take_word_length: "length (snd (take_word s)) \<le> length s"
  by (induction s) (auto split: prod.splits)

lemma trim_start_length: "length (trim_start seqs s) \<le> length s"
proof (induction seqs s rule: trim_start.induct)
  case (1 seqs s)
  then show ?case
    by (subst trim_start.simps) (fastforce split: option.splits)
qed

lemma trim_start_stop: "match_any seqs (trim_start seqs s) = None"
proof (induction seqs s rule: trim_start.induct)
  case (1 seqs s)
  then show ?case
    by (cases "match_any seqs s") (simp_all add: trim_start.simps [of seqs s])
qed

lemma Fields_decreases:
  assumes "trim_start space_seqs s = c # t" and "(w, r) = take_word (c # t)"
  shows "length r < length s"
proof -
  have "match_any space_seqs (c # t) = None"
    using trim_start_stop [of space_seqs s] assms(1) by simp
  with assms(2) [symmetric] take_word_length [of t] have "length r \<le> length t"
    by (auto split: prod.splits)
  moreover have "Suc (length t) \<le> length s"
    using trim_start_length [of space_seqs s] assms(1) by simp
  ultimately show ?thesis by simp
qed

function Fields :: "string \<Rightarrow> string list" where
  "Fields s =
     (case trim_start space_seqs s of
        [] \<Rightarrow> []
      | c # t \<Rightarrow> (case take_word (c # t) of (w, r) \<Rightarrow> w # Fields r))"
  by pat_completeness auto
termination
  by (relation "measure length") (auto intro: Fields_decreases simp del: take_word.simps)

declare Fields.simps [simp del]

text \<open>\<open>strings.Split\<close> with a one-byte separator: always at least one piece.\<close>

fun Split :: "char \<Rightarrow> string \<Rightarrow> string list" where
  "Split sep [] = [[]]"
| "Split sep (c # s) =
     (if c = sep then [] # Split sep s
      else case Split sep s of [] \<Rightarrow> [[c]] | w # ws \<Rightarrow> (c # w) # ws)"

text \<open>\<open>strings.Trim(s, "x")\<close> for a single ASCII character.\<close>

definition TrimChar :: "char \<Rightarrow> string \<Rightarrow> string" where
  "TrimChar c s = rev (dropWhile (\<lambda>x. x = c) (rev (dropWhile (\<lambda>x. x = c) s)))"

definition TrimPrefix :: "string \<Rightarrow> string \<Rightarrow> string" where
  "TrimPrefix s p = (if has_prefix s p then drop (length p) s else s)"

fun Contains :: "string \<Rightarrow> string \<Rightarrow> bool" where
  "Contains [] p = (p = [])"
| "Contains (c # s) p = (has_prefix (c # s) p \<or> Contains s p)"

fun Join :: "string list \<Rightarrow> string \<Rightarrow> string" where
  "Join [] sep = []"
| "Join [x] sep = x"
| "Join (x # y # xs) sep = x @ sep @ Join (y # xs) sep"

text \<open>\<open>strings.IndexByte\<close> and \<open>strings.LastIndex\<close> with a one-byte pattern.\<close>

fun IndexByte :: "string \<Rightarrow> char \<Rightarrow> nat option" where
  "IndexByte [] b = None"
| "IndexByte (c # s) b = (if c = b then Some 0 else map_option Suc (IndexByte s b))"

definition LastIndex :: "string \<Rightarrow> char \<Rightarrow> nat option" where
  "LastIndex s b = map_option (\<lambda>i. length s - Suc i) (IndexByte (rev s) b)"

subsection \<open>Laws\<close>

lemma Split_not_Nil [simp]: "Split sep s \<noteq> []"
  by (cases s) (auto split: list.splits)

lemma Split_word: "sep \<notin> set w \<Longrightarrow> Split sep w = [w]"
  by (induction w) auto

lemma Split_append_sep:
  "sep \<notin> set w \<Longrightarrow> Split sep (w @ sep # s) = w # Split sep s"
  by (induction w) auto

lemma Split_Join:
  "\<lbrakk>ws \<noteq> []; \<forall>w \<in> set ws. sep \<notin> set w\<rbrakk> \<Longrightarrow> Split sep (Join ws [sep]) = ws"
proof (induction ws "[sep]" rule: Join.induct)
  case (3 x y xs)
  then show ?case by (simp add: Split_append_sep)
qed (simp_all add: Split_word)

lemma Contains_iff: "Contains s p \<longleftrightarrow> (\<exists>a b. s = a @ p @ b)"
proof (induction s)
  case Nil
  then show ?case by auto
next
  case (Cons c s)
  have "has_prefix (c # s) p \<longleftrightarrow> (\<exists>b. c # s = p @ b)"
    by (metis append_eq_conv_conj append_take_drop_id has_prefix_def)
  then show ?case
    using Cons.IH by (auto simp: Cons_eq_append_conv)
qed

text \<open>A word without white space: no white-space sequence starts anywhere in it.\<close>

definition plain_char :: "char \<Rightarrow> bool" where
  "plain_char c \<longleftrightarrow> 33 \<le> (of_char c :: nat) \<and> (of_char c :: nat) < 127"

lemma match_any_plain:
  assumes "\<forall>q \<in> set seqs. q \<noteq> [] \<and> \<not> plain_char (hd q)" and "plain_char c"
  shows "match_any seqs (c # s) = None"
proof -
  have "\<not> has_prefix (c # s) q" if "q \<in> set seqs" for q
    using assms that by (cases q) (auto simp: has_prefix_def)
  then show ?thesis by (simp add: match_any_def filter_empty_conv)
qed

lemma plain_no_space: "plain_char c \<Longrightarrow> match_any space_seqs (c # s) = None"
  by (rule match_any_plain) (simp_all add: space_seqs_def plain_char_def)

lemma space_is_space: "match_any space_seqs (CHR '' '' # s) = Some 1"
  by (simp add: match_any_def space_seqs_def has_prefix_def)

lemma take_word_plain:
  assumes "\<forall>c \<in> set w. plain_char c"
  shows "take_word (w @ CHR '' '' # s) = (w, CHR '' '' # s)" and "take_word w = (w, [])"
  using assms by (induction w) (auto simp: plain_no_space space_is_space)

lemma trim_start_plain: "plain_char c \<Longrightarrow> trim_start space_seqs (c # s) = c # s"
  by (simp add: trim_start.simps plain_no_space)

lemma trim_start_space: "trim_start space_seqs (CHR '' '' # s) = trim_start space_seqs s"
  by (subst trim_start.simps) (simp add: space_is_space)

lemma trim_start_Nil [simp]: "trim_start seqs [] = []"
proof -
  have "match_any seqs [] = None" using match_any_bounds [of seqs "[]"] by (cases "match_any seqs []") auto
  then show ?thesis by (simp add: trim_start.simps)
qed

definition plain_word :: "string \<Rightarrow> bool" where
  "plain_word w \<longleftrightarrow> w \<noteq> [] \<and> (\<forall>c \<in> set w. plain_char c)"

lemma Fields_Nil [simp]: "Fields [] = []"
  by (simp add: Fields.simps)

lemma Fields_space: "Fields (CHR '' '' # s) = Fields s"
  by (simp add: Fields.simps [of "CHR '' '' # s"] Fields.simps [of s] trim_start_space)

lemma Fields_newline: "Fields (CHR 0x0A # s) = Fields s"
proof -
  have "match_any space_seqs (CHR 0x0A # s) = Some 1"
    by (simp add: match_any_def space_seqs_def has_prefix_def)
  then have "trim_start space_seqs (CHR 0x0A # s) = trim_start space_seqs s"
    by (subst trim_start.simps) simp
  then show ?thesis by (simp add: Fields.simps [of "CHR 0x0A # s"] Fields.simps [of s])
qed

lemma Fields_word:
  assumes "plain_word w"
  shows "Fields (w @ CHR '' '' # s) = w # Fields s" and "Fields w = [w]"
proof -
  obtain c w' where w: "w = c # w'" and c: "plain_char c" and all: "\<forall>c \<in> set w. plain_char c"
    using assms by (cases w) (auto simp: plain_word_def)
  have t: "trim_start space_seqs (w @ x) = w @ x" for x
    using c w by (simp add: trim_start_plain)
  note tw = take_word_plain [OF all]
  show "Fields (w @ CHR '' '' # s) = w # Fields s"
    using t [of "CHR '' '' # s"] tw(1) [of s]
    by (subst Fields.simps) (simp add: w Fields_space del: take_word.simps)
  show "Fields w = [w]"
    using t [of "[]"] tw(2) by (subst Fields.simps) (simp add: w del: take_word.simps)
qed

lemma Fields_not_Nil: "w \<in> set (Fields s) \<Longrightarrow> w \<noteq> []"
proof (induction s rule: Fields.induct)
  case (1 s)
  show ?case
  proof (cases "trim_start space_seqs s")
    case Nil
    with 1(2) show ?thesis by (simp add: Fields.simps [of s])
  next
    case (Cons c t)
    have "match_any space_seqs (c # t) = None"
      using trim_start_stop [of space_seqs s] Cons by simp
    then obtain v r where t: "take_word (c # t) = (c # v, r)"
      by (cases "take_word t") auto
    have F: "Fields s = (c # v) # Fields r"
      using t Cons by (simp add: Fields.simps [of s] del: take_word.simps)
    show ?thesis
    proof (cases "w = c # v")
      case False
      with 1(2) F have "w \<in> set (Fields r)" by simp
      then show ?thesis using 1(1) [OF Cons t [symmetric]] by simp
    qed simp
  qed
qed

lemma rev_seqs_plain: "plain_char c \<Longrightarrow> match_any (map rev space_seqs) (c # s) = None"
  by (rule match_any_plain) (simp_all add: space_seqs_def plain_char_def)

lemma rev_seqs_space: "match_any (map rev space_seqs) (CHR '' '' # s) = Some 1"
  by (simp add: match_any_def space_seqs_def has_prefix_def)

definition spaces :: "nat \<Rightarrow> string" where
  "spaces n = replicate n (CHR '' '')"

lemma trim_start_spaces: "trim_start space_seqs (spaces n @ s) = trim_start space_seqs s"
  by (induction n) (simp_all add: spaces_def trim_start_space)

lemma trim_end_spaces:
  "trim_start (map rev space_seqs) (spaces n @ s) = trim_start (map rev space_seqs) s"
proof (induction n)
  case (Suc n)
  have "trim_start (map rev space_seqs) (CHR '' '' # t) = trim_start (map rev space_seqs) t" for t
    by (subst trim_start.simps) (simp only: rev_seqs_space option.case drop_Suc_Cons drop_0 One_nat_def)
  with Suc show ?case by (simp add: spaces_def)
qed (simp add: spaces_def)

lemma rev_spaces [simp]: "rev (spaces n) = spaces n"
  by (simp add: spaces_def)

text \<open>Trimming a word, or nothing, surrounded by spaces.\<close>

lemma TrimSpace_padded:
  assumes "w = [] \<or> plain_word w"
  shows "TrimSpace (spaces i @ w @ spaces j) = w"
proof (cases "w = []")
  case True
  have "trim_start space_seqs (spaces i @ spaces j) = []"
    using trim_start_spaces [of i "spaces j"] trim_start_spaces [of j "[]"] by simp
  with True show ?thesis by (simp add: TrimSpace_def)
next
  case False
  with assms have w: "\<forall>c \<in> set w. plain_char c" by (simp add: plain_word_def)
  obtain c t where ct: "w = c # t" using False by (cases w) auto
  obtain d u where du: "rev w = d # u" using False by (cases "rev w") auto
  have "d \<in> set w" using du by (metis list.set_intros(1) set_rev)
  have "trim_start space_seqs (spaces i @ w @ spaces j) = w @ spaces j"
    using w ct by (simp add: trim_start_spaces trim_start_plain)
  moreover have "trim_start (map rev space_seqs) (rev w) = rev w"
    using rev_seqs_plain [of d u] w \<open>d \<in> set w\<close> du by (simp add: trim_start.simps)
  ultimately show ?thesis by (simp add: TrimSpace_def trim_end_spaces)
qed

lemma TrimSpace_word_ends:
  assumes "s \<noteq> []" and "plain_char (hd s)" and "plain_char (last s)"
  shows "TrimSpace s = s"
proof -
  have "trim_start space_seqs s = s" using assms(1,2) by (cases s) (auto intro: trim_start_plain)
  moreover have "trim_start (map rev space_seqs) (rev s) = rev s"
    using assms(1,3) rev_seqs_plain [of "last s" "tl (rev s)"]
    by (cases "rev s") (auto simp: trim_start.simps [of _ "_ # _"] hd_rev [symmetric])
  ultimately show ?thesis by (simp add: TrimSpace_def)
qed

lemma Fields_Join: "\<forall>w \<in> set ws. plain_word w \<Longrightarrow> Fields (Join ws '' '') = ws"
proof (induction ws "'' ''" rule: Join.induct)
  case (3 x y xs)
  then show ?case using Fields_word(1) [of x "Join (y # xs) '' ''"] by simp
qed (simp_all add: Fields_word(2))

lemma hd_Join: "\<lbrakk>ws \<noteq> []; hd ws \<noteq> []\<rbrakk> \<Longrightarrow> hd (Join ws sep) = hd (hd ws)"
  by (cases "(ws, sep)" rule: Join.cases) auto

lemma Join_eq_Nil: "Join ws sep = [] \<Longrightarrow> ws = [] \<or> hd ws = []"
  by (cases "(ws, sep)" rule: Join.cases) auto

lemma last_Join: "\<lbrakk>ws \<noteq> []; last ws \<noteq> []\<rbrakk> \<Longrightarrow> Join ws sep \<noteq> [] \<and> last (Join ws sep) = last (last ws)"
  by (induction ws sep rule: Join.induct) auto

lemma set_Join: "set (Join ws sep) \<subseteq> \<Union> (set ` set ws) \<union> set sep"
  by (induction ws sep rule: Join.induct) auto

lemma TrimChar_around: "c \<notin> set s \<Longrightarrow> TrimChar c ([c] @ s @ [c]) = s"
proof -
  assume c: "c \<notin> set s"
  have stop: "dropWhile (\<lambda>x. x = c) t = t" if "c \<notin> set t" for t
    using that by (cases t) auto
  have "dropWhile (\<lambda>x. x = c) (rev (s @ [c])) = rev s" using c by (simp add: stop)
  moreover have "dropWhile (\<lambda>x. x = c) (s @ [c]) = (if s = [] then [] else s @ [c])"
    using c by (cases s) auto
  ultimately show ?thesis using c by (auto simp: TrimChar_def)
qed

lemma has_prefix_append [simp]: "has_prefix (p @ s) p"
  by (simp add: has_prefix_def)

subsection \<open>Hexadecimal\<close>

definition hex_digit :: "nat \<Rightarrow> char" where
  "hex_digit d = (if d < 10 then char_of (48 + d) else char_of (87 + d))"

definition hex_byte :: "byte \<Rightarrow> string" where
  "hex_byte b = [hex_digit (unat b div 16), hex_digit (unat b mod 16)]"

text \<open>\<open>hex.EncodeToString\<close>.\<close>

definition hex_encode :: "bytes \<Rightarrow> string" where
  "hex_encode b = concat (map hex_byte b)"

text \<open>The value of a hexadecimal digit, of either case.\<close>

definition hex_val :: "char \<Rightarrow> nat option" where
  "hex_val c =
     (let n = (of_char c :: nat)
      in if 48 \<le> n \<and> n \<le> 57 then Some (n - 48)
         else if 97 \<le> n \<and> n \<le> 102 then Some (n - 87)
         else if 65 \<le> n \<and> n \<le> 70 then Some (n - 55)
         else None)"

text \<open>The bytes \<open>hex.DecodeString\<close> returns: those before the first error, if there is one.\<close>

fun hex_decode :: "string \<Rightarrow> bytes" where
  "hex_decode (p # q # s) =
     (case (hex_val p, hex_val q) of
        (Some a, Some b) \<Rightarrow> of_nat (16 * a + b) # hex_decode s
      | _ \<Rightarrow> [])"
| "hex_decode _ = []"

lemma hex_val_digit: "d < 16 \<Longrightarrow> hex_val (hex_digit d) = Some d"
  by (simp add: hex_val_def hex_digit_def Let_def)

lemma hex_decode_encode [simp]: "hex_decode (hex_encode b) = b"
proof (induction b)
  case (Cons x b)
  have "unat x < 256" using unsigned_less [of x, where 'a = nat] by simp
  then have "unat x div 16 < 16" by simp
  moreover have "(of_nat (16 * (unat x div 16) + unat x mod 16) :: byte) = x"
    by (simp add: mult_div_mod_eq)
  ultimately show ?case
    using Cons by (simp add: hex_encode_def hex_byte_def hex_val_digit)
qed (simp add: hex_encode_def)

lemma length_hex_encode [simp]: "length (hex_encode b) = 2 * length b"
  by (induction b) (simp_all add: hex_encode_def hex_byte_def)

lemma hex_encode_inj: "hex_encode a = hex_encode b \<Longrightarrow> a = b"
  by (metis hex_decode_encode)

lemma hex_digits: "c \<in> set (hex_encode b) \<Longrightarrow> \<exists>d < 16. c = hex_digit d"
proof (induction b)
  case (Cons x b)
  have "unat x < 256" using unsigned_less [of x, where 'a = nat] by simp
  then have "unat x div 16 < 16" "unat x mod 16 < 16" by simp_all
  with Cons show ?case by (auto simp: hex_encode_def hex_byte_def simp del: mod_less_divisor)
qed (simp add: hex_encode_def)

end
