(* ===== verification/Ws_Transport.thy ===== *)
theory Ws_Transport
  imports Tls_Transport Go_Strings
begin

text \<open>
  src/t2tunnel/ws_transport.go: \<open>wsConn\<close> turns the messages of a WebSocket into a
  byte stream, \<open>WSListener\<close> queues upgraded connections and shows every other
  visitor a web page, \<open>dialWS\<close> composes the dialling request. The WebSocket library
  (gorilla/websocket) is the parameter \<open>ws_lib\<close>, and \<open>ws_lib_ok\<close> states what its
  documentation promises of \<open>NextReader\<close> and the reader it returns.
\<close>

subsection \<open>The stream over messages\<close>

datatype msg_type = TextMessage | BinaryMessage

record 'c ws_lib =
  nextReader :: "'c \<Rightarrow> (go_error + msg_type) \<times> 'c"
  readMessage :: "'c \<Rightarrow> nat \<Rightarrow> (bytes \<times> go_error option) \<times> 'c"
  writeMessage :: "'c \<Rightarrow> msg_type \<Rightarrow> bytes \<Rightarrow> go_error option \<times> 'c"

text \<open>
  \<open>wsConn\<close>: the reader \<open>w.r\<close> belongs to the connection it came from, so only
  whether it is set is kept here.
\<close>

record 'c wsConn =
  ws_c :: 'c
  ws_reading :: bool

definition newWSConn :: "'c \<Rightarrow> 'c wsConn" where
  "newWSConn c = \<lparr>ws_c = c, ws_reading = False\<rparr>"

text \<open>The tail of one iteration: read from the current message.\<close>

definition ws_read_current ::
  "'c ws_lib \<Rightarrow> 'c wsConn \<Rightarrow> nat \<Rightarrow> ((bytes \<times> go_error option) \<times> 'c wsConn) + 'c wsConn" where
  "ws_read_current lib w k =
     (case readMessage lib (ws_c w) k of
        ((d, e), c) \<Rightarrow>
          if e = Some EOF
          then (if d \<noteq> [] then Inl ((d, None), w\<lparr>ws_c := c, ws_reading := False\<rparr>)
                else Inr (w\<lparr>ws_c := c, ws_reading := False\<rparr>))
          else Inl ((d, e), w\<lparr>ws_c := c\<rparr>))"

text \<open>One iteration of the loop of \<open>Read\<close>: a result, or the state to continue with.\<close>

definition ws_iter ::
  "'c ws_lib \<Rightarrow> 'c wsConn \<Rightarrow> nat \<Rightarrow> ((bytes \<times> go_error option) \<times> 'c wsConn) + 'c wsConn" where
  "ws_iter lib w k =
     (if ws_reading w then ws_read_current lib w k
      else case nextReader lib (ws_c w) of
        (Inl e, c) \<Rightarrow> Inl (([], Some e), w\<lparr>ws_c := c\<rparr>)
      | (Inr mt, c) \<Rightarrow>
          if mt \<noteq> BinaryMessage then Inr (w\<lparr>ws_c := c\<rparr>)
          else ws_read_current lib (w\<lparr>ws_c := c, ws_reading := True\<rparr>) k)"

partial_function (option) ws_Read ::
  "'c ws_lib \<Rightarrow> 'c wsConn \<Rightarrow> nat \<Rightarrow> ((bytes \<times> go_error option) \<times> 'c wsConn) option" where
  "ws_Read lib w k =
     (case ws_iter lib w k of
        Inl res \<Rightarrow> Some res
      | Inr w' \<Rightarrow> ws_Read lib w' k)"

definition ws_Write :: "'c ws_lib \<Rightarrow> 'c wsConn \<Rightarrow> bytes \<Rightarrow> io_result \<times> 'c wsConn" where
  "ws_Write lib w p =
     (case writeMessage lib (ws_c w) BinaryMessage p of
        (Some e, c) \<Rightarrow> ((0, Some e), w\<lparr>ws_c := c\<rparr>)
      | (None, c) \<Rightarrow> ((length p, None), w\<lparr>ws_c := c\<rparr>))"

text \<open>
  The library's promises, through three views of a connection: the data messages
  still to come (\<open>pend\<close>), what is left of the message being read (\<open>cur\<close>), and the
  error that follows the last message (\<open>fin\<close>).
\<close>

record 'c ws_view =
  pend :: "'c \<Rightarrow> (msg_type \<times> bytes) list"
  cur :: "'c \<Rightarrow> bytes"
  fin :: "'c \<Rightarrow> go_error"

definition next_reader_ok :: "'c ws_lib \<Rightarrow> 'c ws_view \<Rightarrow> bool" where
  "next_reader_ok lib v \<longleftrightarrow>
     (\<forall>c r c'. nextReader lib c = (r, c') \<longrightarrow>
        fin v c' = fin v c
        \<and> (case pend v c of
             [] \<Rightarrow> r = Inl (fin v c) \<and> pend v c' = []
           | (mt, d) # ms \<Rightarrow> r = Inr mt \<and> pend v c' = ms \<and> cur v c' = d))"

definition read_message_ok :: "'c ws_lib \<Rightarrow> 'c ws_view \<Rightarrow> bool" where
  "read_message_ok lib v \<longleftrightarrow>
     (\<forall>c k d e c'. readMessage lib c k = ((d, e), c') \<longrightarrow>
        fin v c' = fin v c \<and> pend v c' = pend v c
        \<and> cur v c = d @ cur v c' \<and> length d \<le> k
        \<and> (e = None \<and> cur v c \<noteq> [] \<and> (0 < k \<longrightarrow> d \<noteq> []) \<or> e = Some EOF \<and> cur v c' = []))"

definition ws_lib_ok :: "'c ws_lib \<Rightarrow> 'c ws_view \<Rightarrow> bool" where
  "ws_lib_ok lib v \<longleftrightarrow> next_reader_ok lib v \<and> read_message_ok lib v"

text \<open>What a reader of the stream is still owed: the rest of the binary messages.\<close>

fun binary_bytes :: "(msg_type \<times> bytes) list \<Rightarrow> bytes" where
  "binary_bytes [] = []"
| "binary_bytes ((BinaryMessage, d) # ms) = d @ binary_bytes ms"
| "binary_bytes ((TextMessage, d) # ms) = binary_bytes ms"

definition ws_owed :: "'c ws_view \<Rightarrow> 'c wsConn \<Rightarrow> bytes" where
  "ws_owed v w = (if ws_reading w then cur v (ws_c w) else []) @ binary_bytes (pend v (ws_c w))"

definition ws_todo :: "'c ws_view \<Rightarrow> 'c wsConn \<Rightarrow> nat" where
  "ws_todo v w = 2 * length (pend v (ws_c w)) + (if ws_reading w then 1 else 0)"

definition ws_result_ok ::
  "'c ws_view \<Rightarrow> 'c wsConn \<Rightarrow> nat \<Rightarrow> (bytes \<times> go_error option) \<times> 'c wsConn \<Rightarrow> bool" where
  "ws_result_ok v w k res \<longleftrightarrow>
     (case res of ((d, e), w') \<Rightarrow>
        ws_owed v w = d @ ws_owed v w' \<and> length d \<le> k \<and> fin v (ws_c w') = fin v (ws_c w)
        \<and> (e = None \<and> (0 < k \<longrightarrow> d \<noteq> []) \<or> e = Some (fin v (ws_c w)) \<and> d = [] \<and> ws_owed v w = []))"

lemma ws_read_current_ok:
  assumes "read_message_ok lib v" and "ws_reading w"
  shows "case ws_read_current lib w k of
      Inl res \<Rightarrow> ws_result_ok v w k res
    | Inr w' \<Rightarrow> ws_owed v w' = ws_owed v w \<and> ws_todo v w' < ws_todo v w
               \<and> fin v (ws_c w') = fin v (ws_c w)"
proof -
  obtain d e c where r: "readMessage lib (ws_c w) k = ((d, e), c)" by (metis prod.exhaust)
  with assms(1) have "fin v c = fin v (ws_c w)" "pend v c = pend v (ws_c w)"
    "cur v (ws_c w) = d @ cur v c" "length d \<le> k"
    "e = None \<and> cur v (ws_c w) \<noteq> [] \<and> (0 < k \<longrightarrow> d \<noteq> []) \<or> e = Some EOF \<and> cur v c = []"
    unfolding read_message_ok_def by blast+
  with r assms(2) show ?thesis
    by (auto simp: ws_read_current_def ws_result_ok_def ws_owed_def ws_todo_def)
qed

lemma ws_result_ok_cong:
  assumes "ws_owed v w = ws_owed v w'" and "fin v (ws_c w) = fin v (ws_c w')"
  shows "ws_result_ok v w k = ws_result_ok v w' k"
  using assms by (simp add: ws_result_ok_def fun_eq_iff)

lemma ws_iter_ok:
  assumes "ws_lib_ok lib v"
  shows "case ws_iter lib w k of
      Inl res \<Rightarrow> ws_result_ok v w k res
    | Inr w' \<Rightarrow> ws_owed v w' = ws_owed v w \<and> ws_todo v w' < ws_todo v w
               \<and> fin v (ws_c w') = fin v (ws_c w)"
proof (cases "ws_reading w")
  case True
  with ws_read_current_ok [of lib v w k] assms show ?thesis
    by (simp add: ws_iter_def ws_lib_ok_def)
next
  case False
  obtain r c where n: "nextReader lib (ws_c w) = (r, c)" by (metis prod.exhaust)
  with assms have spec: "fin v c = fin v (ws_c w)"
    "case pend v (ws_c w) of
       [] \<Rightarrow> r = Inl (fin v (ws_c w)) \<and> pend v c = []
     | (mt, d) # ms \<Rightarrow> r = Inr mt \<and> pend v c = ms \<and> cur v c = d"
    unfolding ws_lib_ok_def next_reader_ok_def by blast+
  show ?thesis
  proof (cases "pend v (ws_c w)")
    case Nil
    with spec n False show ?thesis
      by (simp add: ws_iter_def ws_result_ok_def ws_owed_def)
  next
    case (Cons m ms)
    obtain mt d where m: "m = (mt, d)" by (cases m)
    let ?w = "w\<lparr>ws_c := c, ws_reading := True\<rparr>"
    show ?thesis
    proof (cases mt)
      case TextMessage
      with Cons m spec n False show ?thesis
        by (simp add: ws_iter_def ws_owed_def ws_todo_def)
    next
      case BinaryMessage
      with Cons m spec False have "ws_owed v ?w = ws_owed v w" "ws_todo v ?w < ws_todo v w"
        "fin v (ws_c ?w) = fin v (ws_c w)"
        by (simp_all add: ws_owed_def ws_todo_def)
      moreover have "ws_iter lib w k = ws_read_current lib ?w k"
        using BinaryMessage Cons m spec n False by (simp add: ws_iter_def)
      moreover have "read_message_ok lib v" using assms by (simp add: ws_lib_ok_def)
      ultimately show ?thesis
        using ws_read_current_ok [of lib v ?w k] ws_result_ok_cong [of v ?w w k]
        by (auto split: sum.splits)
    qed
  qed
qed

lemma ws_Read_ok:
  assumes "ws_lib_ok lib v"
  shows "\<exists>res. ws_Read lib w k = Some res \<and> ws_result_ok v w k res"
proof (induction "ws_todo v w" arbitrary: w rule: less_induct)
  case less
  note it = ws_iter_ok [OF assms, of w k]
  show ?case
  proof (cases "ws_iter lib w k")
    case (Inl res)
    with it show ?thesis by (simp add: ws_Read.simps)
  next
    case (Inr w')
    with it have "ws_todo v w' < ws_todo v w" "ws_owed v w' = ws_owed v w"
      "fin v (ws_c w') = fin v (ws_c w)" by auto
    with less [of w'] ws_result_ok_cong [of v w' w k] Inr show ?thesis
      by (simp add: ws_Read.simps [of lib w k])
  qed
qed


text \<open>A scripted connection: the rest of a message, the messages to come, those sent.\<close>

type_synonym scripted = "bytes \<times> (msg_type \<times> bytes) list \<times> bytes list"

definition scripted_lib :: "scripted ws_lib" where
  "scripted_lib =
     \<lparr>nextReader = (\<lambda>(c, ms, out). case ms of
          [] \<Rightarrow> (Inl (OtherErr ''close 1006''), (c, [], out))
        | (mt, d) # ms' \<Rightarrow> (Inr mt, (d, ms', out))),
      readMessage = (\<lambda>(c, ms, out) k.
          if c = [] then (([], Some EOF), (c, ms, out))
          else ((take k c, None), (drop k c, ms, out))),
      writeMessage = (\<lambda>(c, ms, out) mt p. (None, (c, ms, out @ [p])))\<rparr>"

definition scripted_view :: "scripted ws_view" where
  "scripted_view =
     \<lparr>pend = (\<lambda>(c, ms, out). ms), cur = (\<lambda>(c, ms, out). c),
      fin = (\<lambda>_. OtherErr ''close 1006'')\<rparr>"

lemma scripted_lib_ok: "ws_lib_ok scripted_lib scripted_view"
  by (auto simp: ws_lib_ok_def next_reader_ok_def read_message_ok_def scripted_lib_def
      scripted_view_def split: list.splits if_splits)


definition write_message_ok :: "'c ws_lib \<Rightarrow> ('c \<Rightarrow> bytes list) \<Rightarrow> bool" where
  "write_message_ok lib out \<longleftrightarrow>
     (\<forall>c p e c'. writeMessage lib c BinaryMessage p = (e, c') \<longrightarrow>
        out c' = (if e = None then out c @ [p] else out c))"

lemma ws_Write_out:
  assumes "write_message_ok lib out" and "ws_Write lib w p = ((n, e), w')"
  shows "n = (if e = None then length p else 0)
    \<and> out (ws_c w') = (if e = None then out (ws_c w) @ [p] else out (ws_c w))"
proof -
  obtain e1 c where wm: "writeMessage lib (ws_c w) BinaryMessage p = (e1, c)" by (metis prod.exhaust)
  with assms(1) have "out c = (if e1 = None then out (ws_c w) @ [p] else out (ws_c w))"
    unfolding write_message_ok_def by blast
  with wm assms(2) show ?thesis by (auto simp: ws_Write_def split: option.splits)
qed

text \<open>
  Writing a stream to a WebSocket: when the library delivers whole messages (an
  error means the message was not delivered), every \<open>Write\<close> is one binary message
  with exactly its bytes, and \<open>wsConn\<close> honours the contract of \<open>io.Writer\<close>, so that
  the obfuscation layer can run over it.
\<close>

theorem ws_write_messages:
  assumes "write_message_ok lib out"
  shows "conn_writer (ws_Write lib) (\<lambda>w. concat (out (ws_c w)))
    \<and> (\<forall>w p n w'. ws_Write lib w p = ((n, None), w') \<longrightarrow> out (ws_c w') = out (ws_c w) @ [p])"
  using ws_Write_out [OF assms] by (fastforce simp: conn_writer_def)

theorem ws_write_messages_witness:
  "ws_Write scripted_lib (newWSConn ([], [], [[9]])) [1, 2]
     = ((2, None), newWSConn ([], [], [[9], [1, 2]]))
   \<and> conn_writer (ws_Write scripted_lib) (\<lambda>w. concat (snd (snd (ws_c w))))"
proof -
  have ok: "write_message_ok scripted_lib (\<lambda>c. snd (snd c))"
    by (auto simp: write_message_ok_def scripted_lib_def split: prod.splits)
  show ?thesis
    using ws_write_messages [OF ok]
    by (simp add: ws_Write_def scripted_lib_def newWSConn_def)
qed

subsection \<open>The listener\<close>

definition fakePage :: string where
  "fakePage = ''<!DOCTYPE html><html><head><title>Welcome to nginx!</title></head><body><h1>Welcome to nginx!</h1><p>If you see this page, the nginx web server is working.</p></body></html>''"

record http_response =
  status :: nat
  headers :: "(string \<times> string) list"
  body :: string

definition fake_response :: http_response where
  "fake_response =
     \<lparr>status = 200,
      headers = [(''Server'', ''nginx''), (''Content-Type'', ''text/html''),
                 (''Content-Length'', decimal (length fakePage))],
      body = fakePage\<rparr>"

record 'k WSListener =
  l_accept :: "'k list"
  l_closer :: bool
  l_path :: string

record 'k ws_request =
  url_path :: string
  is_upgrade :: bool
  upgrade :: "go_error + 'k"

datatype 'k ws_handled = ServedPage http_response | UpgradeFailed go_error | Queued | ConnClosed 'k

text \<open>
  A \<open>select\<close> is the list of the branches that are ready, each with its effect; an
  empty list means the goroutine blocks.
\<close>

definition ws_handle :: "'k WSListener \<Rightarrow> 'k ws_request \<Rightarrow> ('k ws_handled \<times> 'k WSListener) list" where
  "ws_handle l r =
     (if url_path r = l_path l \<and> is_upgrade r
      then (case upgrade r of
              Inl e \<Rightarrow> [(UpgradeFailed e, l)]
            | Inr c \<Rightarrow>
                (if length (l_accept l) < 64
                 then [(Queued, l\<lparr>l_accept := l_accept l @ [c]\<rparr>)] else [])
                @ (if l_closer l then [(ConnClosed c, l)] else []))
      else [(ServedPage fake_response, l)])"

definition ws_Accept :: "'k WSListener \<Rightarrow> ((go_error + 'k) \<times> 'k WSListener) list" where
  "ws_Accept l =
     (case l_accept l of [] \<Rightarrow> [] | c # cs \<Rightarrow> [(Inr c, l\<lparr>l_accept := cs\<rparr>)])
     @ (if l_closer l then [(Inl NetClosed, l)] else [])"

text \<open>\<open>Close\<close>: \<open>once.Do\<close> closes the channel the first time only; \<open>True\<close> in the result
  means that this call shut the HTTP server down.\<close>

definition ws_Close :: "'k WSListener \<Rightarrow> bool \<times> 'k WSListener" where
  "ws_Close l = (\<not> l_closer l, l\<lparr>l_closer := True\<rparr>)"

record ('w, 'ln) listen_env =
  net_listen :: "'w \<Rightarrow> string \<Rightarrow> (go_error + 'ln) \<times> 'w"
  close_listener :: "'w \<Rightarrow> 'ln \<Rightarrow> 'w"

record ('ln, 'key) http_server =
  srv_ln :: 'ln
  srv_IdleTimeout :: duration
  srv_TLSConfig :: "'key server_tls_config option"

definition NewWSListener ::
  "('w, 'key) crypto_env \<Rightarrow> ('w, 'ln) listen_env \<Rightarrow> 'w \<Rightarrow> string \<Rightarrow> string \<Rightarrow> string \<Rightarrow> bool
     \<Rightarrow> (go_error + 'k WSListener \<times> ('ln, 'key) http_server) \<times> 'w" where
  "NewWSListener cenv lenv w addr path sni useTLS =
     (let path = (if path = '''' then ''/'' else path);
          l = \<lparr>l_accept = [], l_closer = False, l_path = path\<rparr>
      in case net_listen lenv w addr of
           (Inl e, w1) \<Rightarrow> (Inl e, w1)
         | (Inr ln, w1) \<Rightarrow>
             if useTLS
             then (case generateSelfSignedCert cenv w1 sni of
                     (Inl e, w2) \<Rightarrow> (Inl (Wrapped ''certificate'' e), close_listener lenv w2 ln)
                   | (Inr cert, w2) \<Rightarrow>
                       (Inr (l, \<lparr>srv_ln = ln, srv_IdleTimeout = 90 * second,
                                 srv_TLSConfig = Some \<lparr>Certificates = [cert], MinVersion = TLS12,
                                   MaxVersion = TLS13, CipherSuites = []\<rparr>\<rparr>), w2))
             else (Inr (l, \<lparr>srv_ln = ln, srv_IdleTimeout = 90 * second, srv_TLSConfig = None\<rparr>), w1))"

text \<open>
  The listener's life: requests handled, connections accepted, closing, in any order.
  The two lists record the connections queued and those handed out so far.
\<close>

inductive ws_run :: "string \<Rightarrow> 'k WSListener \<Rightarrow> 'k list \<Rightarrow> 'k list \<Rightarrow> bool" for path where
  start: "ws_run path \<lparr>l_accept = [], l_closer = False, l_path = path\<rparr> [] []"
| handled: "\<lbrakk>ws_run path l qs as; (h, l') \<in> set (ws_handle l r)\<rbrakk> \<Longrightarrow>
    ws_run path l' (case (h, upgrade r) of (Queued, Inr c) \<Rightarrow> qs @ [c] | _ \<Rightarrow> qs) as"
| accepted: "\<lbrakk>ws_run path l qs as; (r, l') \<in> set (ws_Accept l)\<rbrakk> \<Longrightarrow>
    ws_run path l' qs (case r of Inr c \<Rightarrow> as @ [c] | Inl _ \<Rightarrow> as)"
| closed: "ws_run path l qs as \<Longrightarrow> ws_run path (snd (ws_Close l)) qs as"

lemma ws_run_inv:
  "ws_run path l qs as \<Longrightarrow> qs = as @ l_accept l \<and> length (l_accept l) \<le> 64 \<and> l_path l = path"
proof (induction rule: ws_run.induct)
  case (handled l qs as h l' r)
  then show ?case
    by (auto simp: ws_handle_def split: if_splits sum.splits ws_handled.splits)
next
  case (accepted l qs as r l')
  then show ?case
    by (cases "l_accept l") (auto simp: ws_Accept_def split: if_splits)
qed (auto simp: ws_Close_def)


lemma demo_ws_run:
  "ws_run ''/t'' \<lparr>l_accept = [8], l_closer = False, l_path = ''/t''\<rparr> [7, 8 :: nat] [7]"
proof -
  let ?l0 = "\<lparr>l_accept = [], l_closer = False, l_path = ''/t''\<rparr> :: nat WSListener"
  have 1: "ws_run ''/t'' \<lparr>l_accept = [7], l_closer = False, l_path = ''/t''\<rparr> [7 :: nat] []"
    using ws_run.handled [OF ws_run.start, of Queued "?l0\<lparr>l_accept := [7]\<rparr>" "''/t''"
        "\<lparr>url_path = ''/t'', is_upgrade = True, upgrade = Inr 7\<rparr>"]
    by (simp add: ws_handle_def)
  have 2: "ws_run ''/t'' \<lparr>l_accept = [7, 8], l_closer = False, l_path = ''/t''\<rparr> [7, 8 :: nat] []"
    using ws_run.handled [OF 1, of Queued "?l0\<lparr>l_accept := [7, 8]\<rparr>"
        "\<lparr>url_path = ''/t'', is_upgrade = True, upgrade = Inr 8\<rparr>"]
    by (simp add: ws_handle_def)
  show ?thesis
    using ws_run.accepted [OF 2, of "Inr 7" "?l0\<lparr>l_accept := [8]\<rparr>"] by (simp add: ws_Accept_def)
qed


text \<open>
  Every request ends one way: a visitor who does not ask for an upgrade on the
  secret path gets the same web page whatever the path, with the page's true length
  in its header, and the listener is untouched; an upgraded connection is queued or
  closed, never dropped; and once the listener is closed neither the handler nor
  \<open>Accept\<close> can block.
\<close>

theorem ws_handler_outcomes:
  "(url_path r \<noteq> l_path l \<or> \<not> is_upgrade r \<longrightarrow>
      ws_handle l r = [(ServedPage fake_response, l)]
      \<and> undecimal 0 (the (map_of (headers fake_response) ''Content-Length''))
          = length (body fake_response))
   \<and> (url_path r = l_path l \<and> is_upgrade r \<and> upgrade r = Inr c \<longrightarrow>
       (\<forall>(h, l') \<in> set (ws_handle l r).
          h = Queued \<and> l_accept l' = l_accept l @ [c] \<or> h = ConnClosed c \<and> l' = l))
   \<and> (\<forall>r'. ws_handle (snd (ws_Close l)) r' \<noteq> []) \<and> ws_Accept (snd (ws_Close l)) \<noteq> []"
  by (auto simp: ws_handle_def ws_Accept_def ws_Close_def fake_response_def
      split: sum.splits if_splits)

theorem ws_handler_outcomes_witness:
  "ws_handle \<lparr>l_accept = [], l_closer = False, l_path = ''/t''\<rparr>
     \<lparr>url_path = ''/'', is_upgrade = True, upgrade = Inr (3 :: nat)\<rparr>
     = [(ServedPage fake_response, \<lparr>l_accept = [], l_closer = False, l_path = ''/t''\<rparr>)]"
  using ws_handler_outcomes [of "\<lparr>url_path = ''/'', is_upgrade = True, upgrade = Inr (3 :: nat)\<rparr>"
      "\<lparr>l_accept = [], l_closer = False, l_path = ''/t''\<rparr>"]
  by simp

text \<open>
  Starting the listener: an empty path means \<open>/\<close>; a failure to listen opens
  nothing, and when the certificate cannot be made the socket just opened is closed
  before the error is returned; TLS is on exactly when asked for.
\<close>

theorem ws_listener_start:
  assumes "NewWSListener cenv lenv w addr path sni useTLS = (res, w')"
  shows "(\<exists>e. res = Inl e \<and> net_listen lenv w addr = (Inl e, w'))
    \<or> (\<exists>ln w1. net_listen lenv w addr = (Inr ln, w1) \<and>
        (case res of
           Inl e \<Rightarrow> useTLS \<and> (\<exists>e' w2. generateSelfSignedCert cenv w1 sni = (Inl e', w2)
                      \<and> e = Wrapped ''certificate'' e' \<and> w' = close_listener lenv w2 ln)
         | Inr (l, srv) \<Rightarrow> l_path l = (if path = [] then ''/'' else path)
             \<and> l_accept l = [] \<and> \<not> l_closer l \<and> srv_ln srv = ln
             \<and> (srv_TLSConfig srv \<noteq> None \<longleftrightarrow> useTLS)))"
proof -
  obtain r w1 where n: "net_listen lenv w addr = (r, w1)" by (metis prod.exhaust)
  obtain r2 w2 where g: "generateSelfSignedCert cenv w1 sni = (r2, w2)" by (metis prod.exhaust)
  show ?thesis
    using assms n g by (cases r; cases r2; cases useTLS) (auto simp: NewWSListener_def Let_def)
qed

theorem ws_listener_start_witness:
  "\<exists>res w'. NewWSListener
      (demo_crypto\<lparr>ecdsa_key := (\<lambda>w. (Inl (OtherErr ''no entropy''), w))\<rparr>)
      \<lparr>net_listen = (\<lambda>w a. (Inr (1 :: nat), w)), close_listener = (\<lambda>w ln. w)\<rparr> () '':443'' '''' ''x'' True
      = (res :: go_error + nat WSListener \<times> (nat, nat) http_server, w')
    \<and> (\<exists>e. res = Inl (Wrapped ''certificate'' e))"
proof -
  let ?c = "demo_crypto\<lparr>ecdsa_key := (\<lambda>w. (Inl (OtherErr ''no entropy''), w))\<rparr>"
  let ?l = "\<lparr>net_listen = (\<lambda>w a. (Inr (1 :: nat), w)), close_listener = (\<lambda>w ln. w)\<rparr>"
  obtain res :: "go_error + nat WSListener \<times> (nat, nat) http_server" and w' where
    r: "NewWSListener ?c ?l () '':443'' '''' ''x'' True = (res, w')" by (metis prod.exhaust)
  have g: "generateSelfSignedCert ?c () ''x'' = (Inl (OtherErr ''no entropy''), ())"
    by (simp add: generateSelfSignedCert_def)
  have "\<exists>e. res = Inl (Wrapped ''certificate'' e)"
    using r g by (auto simp: NewWSListener_def)
  with r ws_listener_start [OF r] show ?thesis by blast
qed

subsection \<open>Dialling\<close>

text \<open>
  The dialler's settings. \<open>own_tls\<close> is \<open>NetDialTLSContext\<close>: when it is set the library
  takes its TLS connection from there instead of making the handshake itself.
\<close>

record ('w, 'k) ws_dial_request =
  req_scheme :: string
  req_remote :: string
  req_path :: string
  req_tls :: "client_tls_config option"
  own_tls :: "('w \<Rightarrow> string \<Rightarrow> (go_error + 'k tls_conn) \<times> 'w) option"
  host_header :: "string option"

definition dialWS_request ::
  "('w, 'k) dial_env \<Rightarrow> bool \<Rightarrow> int \<Rightarrow> string \<Rightarrow> string \<Rightarrow> string \<Rightarrow> string \<Rightarrow> bool
     \<Rightarrow> ('w, 'k) ws_dial_request" where
  "dialWS_request env useUTLS fragSize remote host path sni useTLS =
     \<lparr>req_scheme = (if useTLS then ''wss'' else ''ws''),
      req_remote = remote,
      req_path = (if path = '''' then ''/'' else path),
      req_tls = (if useTLS then Some (std_client_config sni) else None),
      own_tls = (if useTLS \<and> (useUTLS \<or> fragSize > 0)
                 then Some (\<lambda>w addr. dialTLS env useUTLS fragSize w addr sni) else None),
      host_header = (if host \<noteq> '''' then Some host else None)\<rparr>"

definition dialWS ::
  "('w, 'k) dial_env \<Rightarrow> ('w \<Rightarrow> ('w, 'k) ws_dial_request \<Rightarrow> (go_error + 'c) \<times> 'w)
     \<Rightarrow> bool \<Rightarrow> int \<Rightarrow> 'w \<Rightarrow> string \<Rightarrow> string \<Rightarrow> string \<Rightarrow> string \<Rightarrow> bool
     \<Rightarrow> (go_error + 'c wsConn) \<times> 'w" where
  "dialWS env ws_dial useUTLS fragSize w remote host path sni useTLS =
     (case ws_dial w (dialWS_request env useUTLS fragSize remote host path sni useTLS) of
        (Inl e, w1) \<Rightarrow> (Inl e, w1)
      | (Inr c, w1) \<Rightarrow> (Inr (newWSConn c), w1))"

lemma dialTLS_name:
  "dialTLS env u f w addr sni = (Inr c, w') \<Longrightarrow> ServerName (tls_cfg c) = sni \<and> tls_frag c = max 0 f"
  by (auto simp: dialTLS_def Let_def std_client_config_def utls_client_config_def
      split: if_splits prod.splits sum.splits option.splits)

text \<open>
  What \<open>dialWS\<close> asks the library for: an encrypted connection is one to the
  requested server name without certificate checks, and when the program brings its
  own TLS stack (\<open>-utls\<close> or \<open>-frag\<close>) any connection that stack returns has the same
  server name, the fragmentation size and the fingerprint of the flags. Without
  TLS no TLS setting is passed at all. A fresh stream has no message in progress.
\<close>

theorem dialWS_request_tls:
  assumes "dialWS env ws_dial useUTLS fragSize w remote host path sni useTLS = (Inr s, w')"
  shows "\<exists>req. ws_dial w req = (Inr (ws_c s), w') \<and> \<not> ws_reading s
    \<and> req_remote req = remote \<and> req_path req \<noteq> []
    \<and> (useTLS \<longrightarrow> req_scheme req = ''wss'' \<and> req_tls req = Some (std_client_config sni)
         \<and> (own_tls req \<noteq> None \<longleftrightarrow> useUTLS \<or> fragSize > 0)
         \<and> (\<forall>f w1 a c w2. own_tls req = Some f \<longrightarrow> f w1 a = (Inr c, w2) \<longrightarrow>
              ServerName (tls_cfg c) = sni \<and> tls_frag c = max 0 fragSize))
    \<and> (\<not> useTLS \<longrightarrow> req_scheme req = ''ws'' \<and> req_tls req = None \<and> own_tls req = None)"
  using assms
  by (intro exI [of _ "dialWS_request env useUTLS fragSize remote host path sni useTLS"])
     (auto simp: dialWS_def dialWS_request_def newWSConn_def dest: dialTLS_name
       split: prod.splits sum.splits)

theorem dialWS_request_tls_witness:
  "dialWS demo_dial (\<lambda>w req. (Inr (req_scheme req), w)) False 4 [] ''cdn:443'' ''h'' '''' ''x'' True
     = (Inr (newWSConn ''wss''), [])
   \<and> (\<exists>req :: (nat list, nat) ws_dial_request. req_scheme req = ''wss'' \<and> own_tls req \<noteq> None)"
proof -
  have r: "dialWS demo_dial (\<lambda>w req. (Inr (req_scheme req), w)) False 4 [] ''cdn:443'' ''h'' '''' ''x'' True
     = (Inr (newWSConn ''wss''), [])"
    by (simp add: dialWS_def dialWS_request_def)
  from dialWS_request_tls [OF r] r show ?thesis by auto
qed

end
