(* ===== verification/Session_Setup.thy ===== *)
theory Session_Setup
  imports Obfs Ws_Transport
begin

text \<open>
  What the client engines share when they set up a tunnel session: the settings
  \<open>applyKCP\<close> and \<open>smuxConfig\<close> of src/t2tunnel/engine.go, the kinds of connection a
  session can run over, and the environment \<open>net_env\<close>: the dialling functions, the
  smux multiplexer and the clock. The multiplexer and KCP are third-party
  libraries and appear as functions of that record.
\<close>

record kcp_settings =
  StreamMode :: bool
  WriteDelay :: bool
  NoDelay :: "int \<times> int \<times> int \<times> int"
  WindowSize :: "int \<times> int"
  Mtu :: int
  ACKNoDelay :: bool

definition kcpDataShards :: int where "kcpDataShards = 10"
definition kcpParityShards :: int where "kcpParityShards = 3"
definition kcpMTU :: int where "kcpMTU = 1350"
definition kcpSndWnd :: int where "kcpSndWnd = 512"
definition kcpRcvWnd :: int where "kcpRcvWnd = 512"
definition kcpNoDelay :: int where "kcpNoDelay = 1"
definition kcpInterval :: int where "kcpInterval = 20"
definition kcpResend :: int where "kcpResend = 2"
definition kcpNoCongestion :: int where "kcpNoCongestion = 1"

definition applyKCP :: kcp_settings where
  "applyKCP =
     \<lparr>StreamMode = True, WriteDelay = False,
      NoDelay = (kcpNoDelay, kcpInterval, kcpResend, kcpNoCongestion),
      WindowSize = (kcpSndWnd, kcpRcvWnd), Mtu = kcpMTU, ACKNoDelay = True\<rparr>"

record smux_config =
  Version :: int
  KeepAliveDisabled :: bool
  KeepAliveInterval :: duration
  KeepAliveTimeout :: duration
  MaxFrameSize :: nat
  MaxReceiveBuffer :: nat
  MaxStreamBuffer :: nat

text \<open>\<open>smuxConfig\<close> overwrites fields of the library's default configuration.\<close>

definition smuxConfig :: "smux_config \<Rightarrow> smux_config" where
  "smuxConfig def =
     def\<lparr>Version := 2, KeepAliveInterval := 8 * second, KeepAliveTimeout := 24 * second,
         MaxFrameSize := 32768, MaxReceiveBuffer := 8 * 1024 * 1024,
         MaxStreamBuffer := 4 * 1024 * 1024\<rparr>"

text \<open>The connections a session can run over; \<open>'k\<close> names the underlying resource.\<close>

datatype 'k tunnel_conn =
    OverTLS "'k tls_conn"
  | OverWS "'k wsConn"
  | OverKCP 'k kcp_settings

fun conn_resource :: "'k tunnel_conn \<Rightarrow> 'k" where
  "conn_resource (OverTLS c) = tls_raw c"
| "conn_resource (OverWS c) = ws_c c"
| "conn_resource (OverKCP k cfg) = k"

record ('w, 'k, 's, 'st) net_env =
  ne_dial :: "('w, 'k) dial_env"
  ne_ws_dial :: "'w \<Rightarrow> ('w, 'k) ws_dial_request \<Rightarrow> (go_error + 'k) \<times> 'w"
  ne_kcp_dial :: "'w \<Rightarrow> string \<Rightarrow> int \<Rightarrow> int \<Rightarrow> (go_error + 'k) \<times> 'w"
  ne_useUTLS :: bool
  ne_fragSize :: int
  ne_smux_default :: smux_config
  ne_smux_client :: "'w \<Rightarrow> smux_config \<Rightarrow> 'k tunnel_conn wrapped \<Rightarrow> (go_error + 's) \<times> 'w"
  ne_session_closed :: "'w \<Rightarrow> 's \<Rightarrow> bool"
  ne_close_session :: "'w \<Rightarrow> 's \<Rightarrow> 'w"
  ne_open_stream :: "'w \<Rightarrow> 's \<Rightarrow> (go_error + 'st) \<times> 'w"
  ne_close_conn :: "'w \<Rightarrow> 'k tunnel_conn \<Rightarrow> 'w"
  ne_now :: "'w \<Rightarrow> time"

definition env_dialTLS ::
  "('w, 'k, 's, 'st) net_env \<Rightarrow> 'w \<Rightarrow> string \<Rightarrow> string \<Rightarrow> (go_error + 'k tunnel_conn) \<times> 'w" where
  "env_dialTLS env w addr sni =
     (case dialTLS (ne_dial env) (ne_useUTLS env) (ne_fragSize env) w addr sni of
        (Inl e, w1) \<Rightarrow> (Inl e, w1) | (Inr c, w1) \<Rightarrow> (Inr (OverTLS c), w1))"

definition env_dialWS ::
  "('w, 'k, 's, 'st) net_env \<Rightarrow> 'w \<Rightarrow> string \<Rightarrow> string \<Rightarrow> string \<Rightarrow> string \<Rightarrow> bool
     \<Rightarrow> (go_error + 'k tunnel_conn) \<times> 'w" where
  "env_dialWS env w remote host path sni useTLS =
     (case dialWS (ne_dial env) (ne_ws_dial env) (ne_useUTLS env) (ne_fragSize env)
             w remote host path sni useTLS of
        (Inl e, w1) \<Rightarrow> (Inl e, w1) | (Inr c, w1) \<Rightarrow> (Inr (OverWS c), w1))"

text \<open>
  \<open>WrapObfs\<close> and \<open>smux.Client\<close> on a fresh connection; when the multiplexer refuses,
  the connection is closed. Every client engine runs exactly this sequence.
\<close>

definition start_session ::
  "('w, 'k, 's, 'st) net_env \<Rightarrow> 'w \<Rightarrow> 'k tunnel_conn \<Rightarrow> (go_error + 's) \<times> 'w" where
  "start_session env w c =
     (case ne_smux_client env w (smuxConfig (ne_smux_default env)) (WrapObfs c DefaultObfsConfig) of
        (Inl e, w1) \<Rightarrow> (Inl e, ne_close_conn env w1 c)
      | (Inr s, w1) \<Rightarrow> (Inr s, w1))"

subsection \<open>Resources\<close>

text \<open>
  What the engines rely on, through \<open>live\<close>, the set of resources open in a world:
  dialling opens one new resource or none, closing a connection releases its
  resource, and smux, on either outcome, opens and closes none.
\<close>

definition net_env_ok :: "('w, 'k, 's, 'st) net_env \<Rightarrow> ('w \<Rightarrow> 'k set) \<Rightarrow> bool" where
  "net_env_ok env live \<longleftrightarrow>
     dial_env_ok (ne_dial env) live
   \<and> (\<forall>w req. opens live w id (ne_ws_dial env w req))
   \<and> (\<forall>w a d p. opens live w id (ne_kcp_dial env w a d p))
   \<and> (\<forall>w cfg c. live (snd (ne_smux_client env w cfg c)) = live w)
   \<and> (\<forall>w c. live (ne_close_conn env w c) = live w - {conn_resource c})"

lemma env_dialTLS_opens:
  assumes "net_env_ok env live"
  shows "opens live w conn_resource (env_dialTLS env w addr sni)"
proof -
  obtain r w1 where d: "dialTLS (ne_dial env) (ne_useUTLS env) (ne_fragSize env) w addr sni = (r, w1)"
    by (metis prod.exhaust)
  have "dial_env_ok (ne_dial env) live" using assms by (simp add: net_env_ok_def)
  from dialTLS_opens [OF this, of w "ne_useUTLS env" "ne_fragSize env" addr sni] d
  show ?thesis by (cases r) (simp_all add: env_dialTLS_def)
qed

lemma env_dialWS_opens:
  assumes "net_env_ok env live"
  shows "opens live w conn_resource (env_dialWS env w remote host path sni useTLS)"
proof -
  let ?req = "dialWS_request (ne_dial env) (ne_useUTLS env) (ne_fragSize env) remote host path sni useTLS"
  obtain r w1 where d: "ne_ws_dial env w ?req = (r, w1)" by (metis prod.exhaust)
  have "opens live w id (ne_ws_dial env w ?req)" using assms by (simp add: net_env_ok_def)
  with d show ?thesis
    by (cases r) (simp_all add: env_dialWS_def dialWS_def newWSConn_def)
qed

lemma start_session_live:
  assumes "net_env_ok env live" and "start_session env w c = (r, w')"
  shows "live w' = (case r of Inl _ \<Rightarrow> live w - {conn_resource c} | Inr _ \<Rightarrow> live w)"
proof -
  obtain r1 w1 where s: "ne_smux_client env w (smuxConfig (ne_smux_default env))
      (WrapObfs c DefaultObfsConfig) = (r1, w1)" by (metis prod.exhaust)
  have "live w1 = live w"
    using assms(1) s unfolding net_env_ok_def by (metis snd_conv)
  with s assms show ?thesis
    by (auto simp: start_session_def net_env_ok_def split: sum.splits)
qed

text \<open>Dialling and starting a session together: one new resource, or none.\<close>

lemma dial_and_start_live:
  assumes ok: "net_env_ok env live" and op: "opens live w conn_resource (Inr c, w1)"
    and st: "start_session env w1 c = (r, w2)"
  shows "case r of Inl _ \<Rightarrow> live w2 = live w
    | Inr _ \<Rightarrow> conn_resource c \<notin> live w \<and> live w2 = insert (conn_resource c) (live w)"
  using op start_session_live [OF ok st] by (auto split: sum.splits)

subsection \<open>A concrete environment\<close>

text \<open>
  A world that is the list of open resources, where TLS dialling works and WebSocket
  and KCP dialling fail; sessions are named by the resource they run over.
\<close>

definition demo_net :: "(nat list, nat, nat, nat) net_env" where
  "demo_net =
     \<lparr>ne_dial = demo_dial,
      ne_ws_dial = (\<lambda>w req. (Inl (OtherErr ''bad handshake''), w)),
      ne_kcp_dial = (\<lambda>w a d p. (Inl (OtherErr ''no route''), w)),
      ne_useUTLS = False, ne_fragSize = 0,
      ne_smux_default = \<lparr>Version = 1, KeepAliveDisabled = False, KeepAliveInterval = 10 * second,
        KeepAliveTimeout = 30 * second, MaxFrameSize = 32768, MaxReceiveBuffer = 4194304,
        MaxStreamBuffer = 65536\<rparr>,
      ne_smux_client = (\<lambda>w cfg c. case c of
          Plain c' \<Rightarrow> (Inr (conn_resource c'), w)
        | Obfuscated c' \<Rightarrow> (Inr (conn_resource (o_conn c')), w)),
      ne_session_closed = (\<lambda>w s. s \<notin> set w),
      ne_close_session = (\<lambda>w s. filter (\<lambda>x. x \<noteq> s) w),
      ne_open_stream = (\<lambda>w s. if s \<in> set w then (Inr s, w) else (Inl EOF, w)),
      ne_close_conn = (\<lambda>w c. filter (\<lambda>x. x \<noteq> conn_resource c) w),
      ne_now = (\<lambda>w. 1000 * second)\<rparr>"

lemma demo_net_ok: "net_env_ok demo_net set"
  using demo_dial_ok
  by (auto simp: net_env_ok_def demo_net_def opens_def split: wrapped.splits)

lemma demo_session: "start_session demo_net w c = (Inr (conn_resource c), w)"
  by (simp add: start_session_def demo_net_def WrapObfs_def DefaultObfsConfig_def)

lemma demo_tls:
  "env_dialTLS demo_net w addr sni =
     (Inr (OverTLS (DirectTLS (Suc (foldr max w 0)) (std_client_config sni))), Suc (foldr max w 0) # w)"
  by (simp add: env_dialTLS_def dialTLS_def demo_net_def demo_dial_def Let_def)

end
