(* ===== verification/Multi_Path.thy ===== *)
theory Multi_Path
  imports Session_Setup
begin

text \<open>
  src/t2tunnel/multipath.go: the client that holds several servers and fails over
  between them. A \<open>*ServerEndpoint\<close> is its index in \<open>servers\<close>. Every function that
  takes the mutex runs as one step on the record \<open>MultiPathClient\<close>; the calls
  \<open>handleConn\<close> makes between critical sections are separate steps of the
  interleaving studied at the end. \<open>current\<close> is stored as an index: the list is
  shorter than \<open>2 ^ 31\<close>, so the conversions to and from \<open>int32\<close> are exact.
\<close>

record ServerEndpoint =
  Address :: string
  SNI :: string
  Transport :: string
  WSPath :: string
  WSHost :: string
  WSTLS :: bool
  failCount :: u32
  lastFail :: time

record 's MultiPathClient =
  mp_servers :: "ServerEndpoint list"
  mp_current :: nat
  mp_listen :: string
  mp_session :: "'s option"
  mp_sessionSrv :: "nat option"

definition NewMultiPathClient :: "string \<Rightarrow> ServerEndpoint list \<Rightarrow> 's MultiPathClient" where
  "NewMultiPathClient listen servers =
     \<lparr>mp_servers = servers, mp_current = 0, mp_listen = listen,
      mp_session = None, mp_sessionSrv = None\<rparr>"

text \<open>\<open>time.Since\<close>: the difference saturates at the range of a duration.\<close>

definition since :: "time \<Rightarrow> time \<Rightarrow> duration" where
  "since now t = max (- (2 ^ 63)) (min (2 ^ 63 - 1) (now - t))"

definition blacklisted :: "time \<Rightarrow> ServerEndpoint \<Rightarrow> bool" where
  "blacklisted now srv \<longleftrightarrow> since now (lastFail srv) < 30 * second \<and> 3 \<le> sint (failCount srv)"

definition markFailedLocked :: "time \<Rightarrow> ServerEndpoint \<Rightarrow> ServerEndpoint" where
  "markFailedLocked now srv = srv\<lparr>failCount := failCount srv + 1, lastFail := now\<rparr>"

definition mp_mark :: "'s MultiPathClient \<Rightarrow> nat \<Rightarrow> time \<Rightarrow> 's MultiPathClient" where
  "mp_mark m idx now =
     m\<lparr>mp_servers := (mp_servers m)[idx := markFailedLocked now (mp_servers m ! idx)]\<rparr>"

definition dial_server ::
  "('w, 'k, 's, 'st) net_env \<Rightarrow> 'w \<Rightarrow> ServerEndpoint \<Rightarrow> (go_error + 'k tunnel_conn) \<times> 'w" where
  "dial_server env w srv =
     (if Transport srv = ''ws''
      then env_dialWS env w (Address srv) (WSHost srv) (WSPath srv) (SNI srv) (WSTLS srv)
      else env_dialTLS env w (Address srv) (SNI srv))"

text \<open>The \<open>for\<close> loop of \<open>getSession\<close>, from iteration \<open>i\<close> on.\<close>

function mp_loop ::
  "('w, 'k, 's, 'st) net_env \<Rightarrow> nat \<Rightarrow> nat \<Rightarrow> nat \<Rightarrow> 's MultiPathClient \<Rightarrow> 'w
     \<Rightarrow> (go_error + 's \<times> nat) \<times> 's MultiPathClient \<times> 'w" where
  "mp_loop env start n i m w =
     (if n \<le> i then (Inl AllServersDown, m, w)
      else let idx = (start + i) mod n; srv = mp_servers m ! idx
        in if blacklisted (ne_now env w) srv then mp_loop env start n (Suc i) m w
           else case dial_server env w srv of
             (Inl e, w1) \<Rightarrow> mp_loop env start n (Suc i) (mp_mark m idx (ne_now env w1)) w1
           | (Inr c, w1) \<Rightarrow>
               (case start_session env w1 c of
                  (Inl e, w2) \<Rightarrow> mp_loop env start n (Suc i) (mp_mark m idx (ne_now env w2)) w2
                | (Inr s, w2) \<Rightarrow>
                    (Inr (s, idx),
                     m\<lparr>mp_session := Some s, mp_sessionSrv := Some idx, mp_current := idx,
                       mp_servers := (mp_servers m)[idx := (mp_servers m ! idx)\<lparr>failCount := 0\<rparr>]\<rparr>,
                     w2)))"
  by pat_completeness auto
termination
  by (relation "measure (\<lambda>(env, start, n, i, m, w). n - i)") auto

declare mp_loop.simps [simp del]

definition mp_getSession ::
  "('w, 'k, 's, 'st) net_env \<Rightarrow> 's MultiPathClient \<Rightarrow> 'w
     \<Rightarrow> (go_error + 's \<times> nat option) \<times> 's MultiPathClient \<times> 'w" where
  "mp_getSession env m w =
     (let dial = (case mp_loop env (mp_current m) (length (mp_servers m)) 0 m w of
                    (Inl e, m', w') \<Rightarrow> (Inl e, m', w')
                  | (Inr (s, idx), m', w') \<Rightarrow> (Inr (s, Some idx), m', w'))
      in case mp_session m of
           Some s \<Rightarrow> if \<not> ne_session_closed env w s then (Inr (s, mp_sessionSrv m), m, w) else dial
         | None \<Rightarrow> dial)"

definition mp_markFailed ::
  "('w, 'k, 's, 'st) net_env \<Rightarrow> nat \<Rightarrow> 's MultiPathClient \<Rightarrow> 'w \<Rightarrow> 's MultiPathClient \<times> 'w" where
  "mp_markFailed env idx m w =
     (let m1 = mp_mark m idx (ne_now env w)
      in case mp_session m1 of
           None \<Rightarrow> (m1, w)
         | Some s \<Rightarrow> (m1\<lparr>mp_session := None\<rparr>, ne_close_session env w s))"

text \<open>
  How serving a local connection ends. \<open>Panicked\<close> is a nil dereference, or an index out
  of range in \<open>itoa\<close>; both are shown impossible.
\<close>

datatype 'st conn_outcome = ClientClosed | Piped 'st | Panicked

text \<open>\<open>handleConn\<close> run without interference from other connections.\<close>

definition mp_handleConn ::
  "('w, 'k, 's, 'st) net_env \<Rightarrow> 's MultiPathClient \<Rightarrow> 'w
     \<Rightarrow> 'st conn_outcome \<times> 's MultiPathClient \<times> 'w" where
  "mp_handleConn env m w =
     (case mp_getSession env m w of
        (Inl e, m1, w1) \<Rightarrow> (ClientClosed, m1, w1)
      | (Inr (s, srv), m1, w1) \<Rightarrow>
          (case ne_open_stream env w1 s of
             (Inl e, w2) \<Rightarrow>
               (case srv of
                  Some idx \<Rightarrow> (case mp_markFailed env idx m1 w2 of (m2, w3) \<Rightarrow> (ClientClosed, m2, w3))
                | None \<Rightarrow> (Panicked, m1, w2))
           | (Inr st, w2) \<Rightarrow> (Piped st, m1, w2)))"

subsection \<open>The invariant\<close>

text \<open>
  A recorded session has a recorded server, and every recorded index is one of the
  list, so that no access of the code is out of range.
\<close>

definition mp_inv :: "'s MultiPathClient \<Rightarrow> bool" where
  "mp_inv m \<longleftrightarrow>
     (mp_servers m = [] \<longrightarrow> mp_current m = 0) \<and>
     (mp_servers m \<noteq> [] \<longrightarrow> mp_current m < length (mp_servers m)) \<and>
     (mp_session m \<noteq> None \<longrightarrow> mp_sessionSrv m \<noteq> None) \<and>
     (\<forall>i. mp_sessionSrv m = Some i \<longrightarrow> i < length (mp_servers m))"

text \<open>The configuration of a server: everything the code never writes.\<close>

definition endpoint_cfg :: "ServerEndpoint \<Rightarrow> ServerEndpoint" where
  "endpoint_cfg srv = srv\<lparr>failCount := 0, lastFail := 0\<rparr>"

lemma mp_inv_new: "mp_inv (NewMultiPathClient listen servers)"
  by (simp add: mp_inv_def NewMultiPathClient_def)

lemma mp_mark_simps [simp]:
  "length (mp_servers (mp_mark m idx now)) = length (mp_servers m)"
  "mp_session (mp_mark m idx now) = mp_session m"
  "mp_sessionSrv (mp_mark m idx now) = mp_sessionSrv m"
  "mp_current (mp_mark m idx now) = mp_current m"
  "mp_listen (mp_mark m idx now) = mp_listen m"
  by (simp_all add: mp_mark_def)

lemma mp_inv_mark [simp]: "mp_inv (mp_mark m idx now) = mp_inv m"
  by (auto simp: mp_inv_def mp_mark_def)

lemma cfg_list_update:
  "endpoint_cfg x = endpoint_cfg (xs ! i) \<Longrightarrow> map endpoint_cfg (xs[i := x]) = map endpoint_cfg xs"
  by (metis list_update_beyond list_update_id map_update not_le)

lemma mp_mark_cfg [simp]:
  "map endpoint_cfg (mp_servers (mp_mark m idx now)) = map endpoint_cfg (mp_servers m)"
  by (simp add: mp_mark_def cfg_list_update endpoint_cfg_def markFailedLocked_def)

text \<open>How one iteration ends: the server is passed over, fails, or is connected.\<close>

inductive mp_attempt ::
  "('w, 'k, 's, 'st) net_env \<Rightarrow> nat \<Rightarrow> 's MultiPathClient \<Rightarrow> 'w \<Rightarrow> 's option \<Rightarrow> 's MultiPathClient \<Rightarrow> 'w \<Rightarrow> bool"
  for env idx m w where
  passed: "blacklisted (ne_now env w) (mp_servers m ! idx) \<Longrightarrow> mp_attempt env idx m w None m w"
| no_dial: "\<lbrakk>\<not> blacklisted (ne_now env w) (mp_servers m ! idx);
      dial_server env w (mp_servers m ! idx) = (Inl e, w1)\<rbrakk> \<Longrightarrow>
    mp_attempt env idx m w None (mp_mark m idx (ne_now env w1)) w1"
| no_session: "\<lbrakk>\<not> blacklisted (ne_now env w) (mp_servers m ! idx);
      dial_server env w (mp_servers m ! idx) = (Inr c, w1); start_session env w1 c = (Inl e, w2)\<rbrakk> \<Longrightarrow>
    mp_attempt env idx m w None (mp_mark m idx (ne_now env w2)) w2"
| connected: "\<lbrakk>\<not> blacklisted (ne_now env w) (mp_servers m ! idx);
      dial_server env w (mp_servers m ! idx) = (Inr c, w1); start_session env w1 c = (Inr s, w2)\<rbrakk> \<Longrightarrow>
    mp_attempt env idx m w (Some s)
      (m\<lparr>mp_session := Some s, mp_sessionSrv := Some idx, mp_current := idx,
         mp_servers := (mp_servers m)[idx := (mp_servers m ! idx)\<lparr>failCount := 0\<rparr>]\<rparr>) w2"

lemma mp_loop_step:
  assumes "i < n"
  obtains r m1 w1 where "mp_attempt env ((start + i) mod n) m w r m1 w1"
    "mp_loop env start n i m w =
       (case r of None \<Rightarrow> mp_loop env start n (Suc i) m1 w1
        | Some s \<Rightarrow> (Inr (s, (start + i) mod n), m1, w1))"
proof -
  let ?idx = "(start + i) mod n" and ?srv = "mp_servers m ! ((start + i) mod n)"
  note unf = mp_loop.simps [of env start n i m w]
  show thesis
  proof (cases "blacklisted (ne_now env w) ?srv")
    case True
    with assms show thesis by (intro that [OF passed]) (simp_all add: unf)
  next
    case False
    obtain r w1 where d: "dial_server env w ?srv = (r, w1)" by (metis prod.exhaust)
    show thesis
    proof (cases r)
      case (Inl e)
      with d False assms show thesis by (intro that [OF no_dial]) (simp_all add: unf)
    next
      case (Inr c)
      obtain r2 w2 where s: "start_session env w1 c = (r2, w2)" by (metis prod.exhaust)
      show thesis
      proof (cases r2)
        case (Inl e)
        with d s Inr False assms show thesis by (intro that [OF no_session]) (simp_all add: unf)
      next
        case (Inr s')
        with d s \<open>r = Inr c\<close> False assms show thesis
          by (intro that [OF connected]) (simp_all add: unf Let_def)
      qed
    qed
  qed
qed

lemma mp_loop_end: "mp_loop env start n n m w = (Inl AllServersDown, m, w)"
  by (simp add: mp_loop.simps)

text \<open>Induction over the loop with the cases of one attempt.\<close>

lemma mp_loop_induct [consumes 1, case_names exhausted attempt connect]:
  assumes "i \<le> n"
    and "\<And>m w. P n m w (Inl AllServersDown) m w"
    and "\<And>i m w m1 w1 r m2 w2. \<lbrakk>i < n; mp_attempt env ((start + i) mod n) m w None m1 w1;
           P (Suc i) m1 w1 r m2 w2\<rbrakk> \<Longrightarrow> P i m w r m2 w2"
    and "\<And>i m w s m1 w1. \<lbrakk>i < n; mp_attempt env ((start + i) mod n) m w (Some s) m1 w1\<rbrakk> \<Longrightarrow>
           P i m w (Inr (s, (start + i) mod n)) m1 w1"
  shows "case mp_loop env start n i m w of (r, m', w') \<Rightarrow> P i m w r m' w'"
  using assms(1)
proof (induction "n - i" arbitrary: i m w)
  case 0
  with assms(2) show ?case by (simp add: mp_loop_end)
next
  case (Suc k)
  then have "i < n" by simp
  then obtain r m1 w1 where a: "mp_attempt env ((start + i) mod n) m w r m1 w1"
    and eq: "mp_loop env start n i m w =
       (case r of None \<Rightarrow> mp_loop env start n (Suc i) m1 w1
        | Some s \<Rightarrow> (Inr (s, (start + i) mod n), m1, w1))"
    by (rule mp_loop_step)
  show ?case
  proof (cases r)
    case None
    with Suc eq have "case mp_loop env start n i m w of (r, m', w') \<Rightarrow> P (Suc i) m1 w1 r m' w'"
      by auto
    with assms(3) [OF \<open>i < n\<close>] a None show ?thesis by (auto split: prod.splits)
  next
    case (Some s)
    with eq a assms(4) [OF \<open>i < n\<close>] show ?thesis by simp
  qed
qed

lemma mp_attempt_inv:
  assumes "mp_attempt env idx m w r m1 w1" and "idx < length (mp_servers m)" and "mp_inv m"
  shows "mp_inv m1"
  using assms
proof (cases rule: mp_attempt.cases)
  case (connected c w1 s)
  with assms(2,3) show ?thesis by (auto simp: mp_inv_def)
qed simp_all

lemma mp_attempt_frame:
  assumes "mp_attempt env idx m w r m1 w1"
  shows "map endpoint_cfg (mp_servers m1) = map endpoint_cfg (mp_servers m)"
    and "length (mp_servers m1) = length (mp_servers m)"
    and "k \<noteq> idx \<Longrightarrow> mp_servers m1 ! k = mp_servers m ! k"
    and "mp_listen m1 = mp_listen m"
  using assms
  by (auto elim!: mp_attempt.cases simp: cfg_list_update endpoint_cfg_def mp_mark_def
      markFailedLocked_def)

text \<open>What an unsuccessful attempt leaves behind.\<close>

definition passed_or_failed :: "'s MultiPathClient \<Rightarrow> 's MultiPathClient \<Rightarrow> nat \<Rightarrow> bool" where
  "passed_or_failed m m' k \<longleftrightarrow>
     (\<exists>now. blacklisted now (mp_servers m ! k) \<and> mp_servers m' ! k = mp_servers m ! k)
   \<or> (\<exists>now. mp_servers m' ! k = markFailedLocked now (mp_servers m ! k))"

lemma mp_attempt_None:
  assumes "mp_attempt env idx m w None m1 w1" and "idx < length (mp_servers m)"
  shows "passed_or_failed m m1 idx" "mp_session m1 = mp_session m"
    "mp_sessionSrv m1 = mp_sessionSrv m" "mp_current m1 = mp_current m"
  using assms
  by (auto elim!: mp_attempt.cases simp: passed_or_failed_def mp_mark_def)

lemma mp_attempt_Some:
  assumes "mp_attempt env idx m w (Some s) m1 w1" and "idx < length (mp_servers m)"
  shows "mp_session m1 = Some s" "mp_sessionSrv m1 = Some idx" "mp_current m1 = idx"
    "failCount (mp_servers m1 ! idx) = 0"
  using assms by (auto elim!: mp_attempt.cases)

text \<open>The rotation visits every index once.\<close>

lemma rotation_inj:
  assumes "i < n" and "l < n" and "(start + i) mod n = (start + l) mod (n :: nat)"
  shows "i = l"
proof -
  obtain q1 q2 where "start + i + n * q1 = start + l + n * q2"
    using assms(3) by (auto simp: nat_mod_eq_iff)
  then have "i + n * q1 = l + n * q2" by simp
  then have "i mod n = l mod n" by (auto simp: nat_mod_eq_iff)
  with assms(1,2) show ?thesis by simp
qed

lemma rotation_surj:
  assumes "k < n" and "start < n"
  shows "\<exists>i < n. (start + i) mod n = (k :: nat)"
proof (cases "start \<le> k")
  case True
  with assms show ?thesis by (intro exI [of _ "k - start"]) auto
next
  case False
  with assms show ?thesis by (intro exI [of _ "n + k - start"]) auto
qed

definition mp_loop_post ::
  "nat \<Rightarrow> nat \<Rightarrow> nat \<Rightarrow> 's MultiPathClient \<Rightarrow> go_error + 's \<times> nat \<Rightarrow> 's MultiPathClient \<Rightarrow> bool" where
  "mp_loop_post start n i m r m' \<longleftrightarrow>
     length (mp_servers m') = length (mp_servers m)
   \<and> map endpoint_cfg (mp_servers m') = map endpoint_cfg (mp_servers m)
   \<and> (\<forall>l < i. mp_servers m' ! ((start + l) mod n) = mp_servers m ! ((start + l) mod n))
   \<and> (case r of
        Inl e \<Rightarrow> e = AllServersDown \<and> mp_session m' = mp_session m
          \<and> mp_sessionSrv m' = mp_sessionSrv m \<and> mp_current m' = mp_current m
          \<and> (\<forall>l. i \<le> l \<and> l < n \<longrightarrow> passed_or_failed m m' ((start + l) mod n))
      | Inr (s, idx) \<Rightarrow> \<exists>j. i \<le> j \<and> j < n \<and> idx = (start + j) mod n
          \<and> mp_session m' = Some s \<and> mp_sessionSrv m' = Some idx \<and> mp_current m' = idx
          \<and> failCount (mp_servers m' ! idx) = 0
          \<and> (\<forall>l. i \<le> l \<and> l < j \<longrightarrow> passed_or_failed m m' ((start + l) mod n))
          \<and> (\<forall>l. j < l \<and> l < n \<longrightarrow>
               mp_servers m' ! ((start + l) mod n) = mp_servers m ! ((start + l) mod n)))"

lemma passed_or_failed_frame:
  assumes "mp_servers m1 ! k = mp_servers m ! k"
  shows "passed_or_failed m1 m' k = passed_or_failed m m' k"
  using assms by (simp add: passed_or_failed_def)

lemma mp_attempt_other:
  assumes "mp_attempt env ((start + i) mod n) m w r m1 w1" and "i < n" and "l < n" and "l \<noteq> i"
  shows "mp_servers m1 ! ((start + l) mod n) = mp_servers m ! ((start + l) mod n)"
  using mp_attempt_frame(3) [OF assms(1)] rotation_inj [OF assms(2,3)] assms(4) by metis

lemma mp_loop_post_step:
  assumes "i < n" and len: "length (mp_servers m) = n"
    and att: "mp_attempt env ((start + i) mod n) m w None m1 w1"
    and post: "mp_loop_post start n (Suc i) m1 r m'"
  shows "mp_loop_post start n i m r m'"
proof -
  let ?ix = "\<lambda>l. (start + l) mod n"
  have idx: "?ix i < length (mp_servers m)" using assms(1) len by simp
  note frame = mp_attempt_frame [OF att] and none = mp_attempt_None [OF att idx]
  note other = mp_attempt_other [OF att assms(1)]
  have at_i: "passed_or_failed m m' (?ix i)"
    using none(1) post by (auto simp: passed_or_failed_def mp_loop_post_def)
  have lift: "passed_or_failed m m' (?ix l)"
    if "i \<le> l" "l < n" "Suc i \<le> l \<Longrightarrow> passed_or_failed m1 m' (?ix l)" for l
    using that at_i other [of l] passed_or_failed_frame [of m1 "?ix l" m m']
    by (cases "l = i") auto
  show ?thesis
  proof (cases r)
    case (Inl e)
    with post none frame other lift assms(1) show ?thesis
      by (auto simp: mp_loop_post_def)
  next
    case (Inr p)
    obtain s idx where p: "p = (s, idx)" by (cases p)
    from post Inr p obtain j where j: "Suc i \<le> j" "j < n" "idx = ?ix j"
      "mp_session m' = Some s \<and> mp_sessionSrv m' = Some idx \<and> mp_current m' = idx
       \<and> failCount (mp_servers m' ! idx) = 0"
      "\<forall>l. Suc i \<le> l \<and> l < j \<longrightarrow> passed_or_failed m1 m' (?ix l)"
      "\<forall>l. j < l \<and> l < n \<longrightarrow> mp_servers m' ! ?ix l = mp_servers m1 ! ?ix l"
      by (auto simp: mp_loop_post_def)
    with post Inr p frame other lift assms(1) show ?thesis
      by (auto simp: mp_loop_post_def intro!: exI [of _ j])
  qed
qed

lemma mp_loop_post_connect:
  assumes "i < n" and len: "length (mp_servers m) = n"
    and att: "mp_attempt env ((start + i) mod n) m w (Some s) m1 w1"
  shows "mp_loop_post start n i m (Inr (s, (start + i) mod n)) m1"
proof -
  let ?ix = "\<lambda>l. (start + l) mod n"
  have idx: "?ix i < length (mp_servers m)" using assms(1) len by simp
  note frame = mp_attempt_frame [OF att] and some = mp_attempt_Some [OF att idx]
  note other = mp_attempt_other [OF att assms(1)]
  with frame some assms(1) show ?thesis
    by (auto simp: mp_loop_post_def intro!: exI [of _ i])
qed

lemma mp_loop_post:
  assumes "i \<le> n" and "length (mp_servers m) = n" and "mp_loop env start n i m w = (r, m', w')"
  shows "mp_loop_post start n i m r m'"
proof -
  have "case mp_loop env start n i m w of (r, m', w') \<Rightarrow>
      length (mp_servers m) = n \<longrightarrow> mp_loop_post start n i m r m'"
    using assms(1)
  proof (induction rule: mp_loop_induct)
    case (exhausted m w)
    show ?case by (auto simp: mp_loop_post_def)
  next
    case (attempt i m w m1 w1 r m2 w2)
    then show ?case
      using mp_attempt_frame(2) [OF attempt(2)] by (auto intro: mp_loop_post_step)
  next
    case (connect i m w s m1 w1)
    then show ?case by (auto intro: mp_loop_post_connect)
  qed
  with assms(2,3) show ?thesis by simp
qed

lemma mp_loop_inv:
  assumes "i \<le> n" and "length (mp_servers m) = n" and "mp_inv m"
    and "mp_loop env start n i m w = (r, m', w')"
  shows "mp_inv m'"
proof -
  have "case mp_loop env start n i m w of (r, m', w') \<Rightarrow>
      length (mp_servers m) = n \<and> mp_inv m \<longrightarrow> mp_inv m'"
    using assms(1)
  proof (induction rule: mp_loop_induct)
    case (exhausted m w)
    show ?case by simp
  next
    case (attempt i m w m1 w1 r m2 w2)
    then show ?case
      using mp_attempt_inv [OF attempt(2)] mp_attempt_frame(2) [OF attempt(2)] by auto
  next
    case (connect i m w s m1 w1)
    then show ?case using mp_attempt_inv [OF connect(2)] by auto
  qed
  with assms(2-4) show ?thesis by simp
qed

definition no_live_session :: "('w, 'k, 's, 'st) net_env \<Rightarrow> 's MultiPathClient \<Rightarrow> 'w \<Rightarrow> bool" where
  "no_live_session env m w \<longleftrightarrow> (\<forall>s. mp_session m = Some s \<longrightarrow> ne_session_closed env w s)"

lemma mp_getSession_cached:
  assumes "\<not> no_live_session env m w"
  shows "\<exists>s. mp_session m = Some s \<and> mp_getSession env m w = (Inr (s, mp_sessionSrv m), m, w)"
  using assms by (auto simp: no_live_session_def mp_getSession_def)

lemma mp_getSession_dials:
  assumes "no_live_session env m w"
  shows "mp_getSession env m w =
    (case mp_loop env (mp_current m) (length (mp_servers m)) 0 m w of
       (Inl e, m', w') \<Rightarrow> (Inl e, m', w') | (Inr (s, idx), m', w') \<Rightarrow> (Inr (s, Some idx), m', w'))"
  using assms by (auto simp: no_live_session_def mp_getSession_def Let_def split: option.splits)

lemma mp_getSession_elim:
  assumes "mp_getSession env m w = (res, m', w')" and "no_live_session env m w"
  obtains r where "mp_loop env (mp_current m) (length (mp_servers m)) 0 m w = (r, m', w')"
    "res = (case r of Inl e \<Rightarrow> Inl e | Inr (s, idx) \<Rightarrow> Inr (s, Some idx))"
proof -
  obtain r m1 w1 where l: "mp_loop env (mp_current m) (length (mp_servers m)) 0 m w = (r, m1, w1)"
    by (metis prod.exhaust)
  with mp_getSession_dials [OF assms(2)] assms(1) that [of r] show thesis
    by (cases r) (auto split: prod.splits)
qed


definition demo_server :: "string \<Rightarrow> string \<Rightarrow> ServerEndpoint" where
  "demo_server a tr = \<lparr>Address = a, SNI = ''x'', Transport = tr, WSPath = ''/'', WSHost = '''',
     WSTLS = True, failCount = 0, lastFail = 0\<rparr>"

definition demo_client :: "nat MultiPathClient" where
  "demo_client = NewMultiPathClient '':9000'' [demo_server ''a:443'' ''ws'', demo_server ''b:443'' ''tls'']"

lemma demo_ws_fails: "env_dialWS demo_net w remote host path sni useTLS = (Inl (OtherErr ''bad handshake''), w)"
  by (simp add: env_dialWS_def dialWS_def demo_net_def)

lemma demo_not_blacklisted: "\<not> blacklisted now (demo_server a tr)"
  by (simp add: blacklisted_def demo_server_def)

lemma demo_getSession:
  "mp_getSession demo_net demo_client [] =
     (Inr (1, Some 1),
      \<lparr>mp_servers = [markFailedLocked (1000 * second) (demo_server ''a:443'' ''ws''), demo_server ''b:443'' ''tls''],
       mp_current = 1, mp_listen = '':9000'', mp_session = Some 1, mp_sessionSrv = Some 1\<rparr>, [1])"
  by (simp add: mp_getSession_def demo_client_def NewMultiPathClient_def mp_loop.simps Let_def
      demo_not_blacklisted dial_server_def demo_ws_fails demo_tls demo_session mp_mark_def)
     (simp add: demo_server_def demo_net_def)

lemma demo_no_session: "no_live_session demo_net demo_client []"
  by (simp add: no_live_session_def demo_client_def NewMultiPathClient_def)


text \<open>
  A live session is reused: \<open>getSession\<close> then returns the recorded session and
  server, dials nothing and changes nothing; and right after a successful call, as
  long as that session stays open, every further call returns the same session.
\<close>

theorem mp_session_reused:
  assumes "mp_getSession env m w = (Inr (s, srv), m', w')" and "\<not> ne_session_closed env w2 s"
  shows "mp_getSession env m' w2 = (Inr (s, srv), m', w2)"
proof (cases "no_live_session env m w")
  case True
  with assms(1) obtain r where "mp_loop env (mp_current m) (length (mp_servers m)) 0 m w = (r, m', w')"
    "Inr (s, srv) = (case r of Inl e \<Rightarrow> Inl e | Inr (s, idx) \<Rightarrow> Inr (s, Some idx))"
    by (rule mp_getSession_elim)
  then obtain idx where l: "mp_loop env (mp_current m) (length (mp_servers m)) 0 m w = (Inr (s, idx), m', w')"
    and srv: "srv = Some idx"
    by (auto split: sum.splits)
  have "mp_session m' = Some s \<and> mp_sessionSrv m' = Some idx"
    using mp_loop_post [OF _ _ l] by (auto simp: mp_loop_post_def)
  with assms(2) srv show ?thesis by (simp add: mp_getSession_def)
next
  case False
  with mp_getSession_cached [OF False] assms show ?thesis by (auto simp: mp_getSession_def)
qed

theorem mp_session_reused_witness:
  "\<exists>m'. mp_getSession demo_net demo_client [] = (Inr (1, Some 1), m', [1])
     \<and> mp_getSession demo_net m' [1] = (Inr (1, Some 1), m', [1])"
proof -
  obtain m' where g: "mp_getSession demo_net demo_client [] = (Inr (1, Some 1), m', [1])"
    using demo_getSession by blast
  have "\<not> ne_session_closed demo_net [1] 1" by (simp add: demo_net_def)
  from mp_session_reused [OF g this] g show ?thesis by blast
qed

inductive mp_reach ::
  "('w, 'k, 's, 'st) net_env \<Rightarrow> string \<Rightarrow> ServerEndpoint list \<Rightarrow> 's MultiPathClient \<Rightarrow> 'w \<Rightarrow> bool"
  for env listen servers where
  new: "mp_reach env listen servers (NewMultiPathClient listen servers) w"
| world: "mp_reach env listen servers m w \<Longrightarrow> mp_reach env listen servers m w'"
| get: "\<lbrakk>mp_reach env listen servers m w; mp_getSession env m w = (r, m', w')\<rbrakk> \<Longrightarrow>
    mp_reach env listen servers m' w'"
| mark: "\<lbrakk>mp_reach env listen servers m w; idx < length servers; mp_markFailed env idx m w = (m', w')\<rbrakk> \<Longrightarrow>
    mp_reach env listen servers m' w'"

lemma mp_getSession_inv:
  assumes "mp_getSession env m w = (r, m', w')" and "mp_inv m"
  shows "mp_inv m' \<and> map endpoint_cfg (mp_servers m') = map endpoint_cfg (mp_servers m)
    \<and> mp_listen m' = mp_listen m"
proof (cases "no_live_session env m w")
  case True
  with assms(1) obtain r1 where l: "mp_loop env (mp_current m) (length (mp_servers m)) 0 m w = (r1, m', w')"
    by (rule mp_getSession_elim)
  have "case mp_loop env (mp_current m) (length (mp_servers m)) 0 m w of
      (r, m', w') \<Rightarrow> mp_listen m' = mp_listen m"
    by (rule mp_loop_induct) (auto dest: mp_attempt_frame(4))
  with l mp_loop_inv [OF _ _ assms(2) l] mp_loop_post [OF _ _ l] show ?thesis
    by (simp add: mp_loop_post_def)
next
  case False
  with mp_getSession_cached [OF False] assms show ?thesis by auto
qed

lemma mp_markFailed_inv:
  assumes "mp_markFailed env idx m w = (m', w')" and "mp_inv m"
  shows "mp_inv m' \<and> map endpoint_cfg (mp_servers m') = map endpoint_cfg (mp_servers m)
    \<and> mp_listen m' = mp_listen m"
proof -
  have "mp_inv (mp_mark m idx (ne_now env w))" using assms(2) by simp
  then have "mp_inv ((mp_mark m idx (ne_now env w))\<lparr>mp_session := None\<rparr>)" by (simp add: mp_inv_def)
  with assms show ?thesis
    by (auto simp: mp_markFailed_def Let_def split: option.splits)
qed

lemma mp_reach_inv:
  "mp_reach env listen servers m w \<Longrightarrow>
     mp_inv m \<and> map endpoint_cfg (mp_servers m) = map endpoint_cfg servers \<and> mp_listen m = listen"
proof (induction rule: mp_reach.induct)
  case (new w)
  show ?case using mp_inv_new by (simp add: NewMultiPathClient_def)
next
  case (world m w w')
  then show ?case by simp
next
  case (get m w r m' w')
  then show ?case using mp_getSession_inv [of env m w r m' w'] by simp
next
  case (mark m w idx m' w')
  then show ?case using mp_markFailed_inv [of env idx m w m' w'] by simp
qed

text \<open>
  (C13) The invariant, over every interleaving of the critical sections with each other
  and with changes of the outside world: no index is ever out of range, a recorded
  session has a recorded server, and the configured addresses never change.
\<close>

theorem mp_invariant:
  assumes "mp_reach env listen servers m w"
  shows "mp_inv m \<and> map endpoint_cfg (mp_servers m) = map endpoint_cfg servers \<and> mp_listen m = listen"
  using assms by (rule mp_reach_inv)

theorem mp_invariant_witness:
  "\<exists>m. mp_reach demo_net '':9000'' [demo_server ''a:443'' ''ws'', demo_server ''b:443'' ''tls''] m [1]
     \<and> mp_inv m \<and> mp_session m = Some 1"
proof -
  obtain m where g: "mp_getSession demo_net demo_client [] = (Inr (1, Some 1), m, [1])"
    and s: "mp_session m = Some 1"
    using demo_getSession by auto
  have r: "mp_reach demo_net '':9000'' [demo_server ''a:443'' ''ws'', demo_server ''b:443'' ''tls''] m [1]"
    using mp_reach.get [OF mp_reach.new g [unfolded demo_client_def]] .
  from mp_invariant [OF r] r s show ?thesis by blast
qed

lemma dial_server_opens:
  assumes "net_env_ok env live"
  shows "opens live w conn_resource (dial_server env w srv)"
  using env_dialTLS_opens [OF assms] env_dialWS_opens [OF assms] by (simp add: dial_server_def)

lemma mp_attempt_live:
  assumes ok: "net_env_ok env live" and "mp_attempt env idx m w r m1 w1"
  shows "case r of None \<Rightarrow> live w1 = live w | Some _ \<Rightarrow> \<exists>k. k \<notin> live w \<and> live w1 = insert k (live w)"
  using assms(2)
proof (cases rule: mp_attempt.cases)
  case passed
  then show ?thesis by simp
next
  case (no_dial e)
  then show ?thesis using dial_server_opens [OF ok, of w "mp_servers m ! idx"] by simp
next
  case (no_session c w2 e)
  then show ?thesis
    using dial_and_start_live [OF ok _ no_session(5)] dial_server_opens [OF ok, of w "mp_servers m ! idx"]
    by simp
next
  case (connected c w2 s)
  then show ?thesis
    using dial_and_start_live [OF ok _ connected(5)] dial_server_opens [OF ok, of w "mp_servers m ! idx"]
    by auto
qed

lemma mp_getSession_live:
  assumes "net_env_ok env live" and "no_live_session env m w"
    and "mp_getSession env m w = (res, m', w')"
  shows "case res of Inl _ \<Rightarrow> live w' = live w
    | Inr _ \<Rightarrow> \<exists>k. k \<notin> live w \<and> live w' = insert k (live w)"
proof -
  obtain r where l: "mp_loop env (mp_current m) (length (mp_servers m)) 0 m w = (r, m', w')"
    and res: "res = (case r of Inl e \<Rightarrow> Inl e | Inr (s, idx) \<Rightarrow> Inr (s, Some idx))"
    using assms(3,2) by (rule mp_getSession_elim)
  have "case mp_loop env (mp_current m) (length (mp_servers m)) 0 m w of (r, m', w') \<Rightarrow>
     (case r of Inl _ \<Rightarrow> live w' = live w | Inr _ \<Rightarrow> \<exists>k. k \<notin> live w \<and> live w' = insert k (live w))"
  proof (rule mp_loop_induct, goal_cases)
    case 1
    show ?case by simp
  next
    case 2
    show ?case by simp
  next
    case (3 i m w m1 w1 r m2 w2)
    from mp_attempt_live [OF assms(1) 3(2)] have eq: "live w1 = live w" by simp
    from 3(3) show ?case unfolding eq .
  next
    case (4 i m w s m1 w1)
    from mp_attempt_live [OF assms(1) 4(2)] show ?case by simp
  qed
  with l res show ?thesis by (cases r) auto
qed

text \<open>
  No connection leaks from a walk over the servers: if \<open>getSession\<close> fails, the
  resources open afterwards are those open before, although it may have dialled every
  server; if it dials successfully, exactly one resource was added.
\<close>

theorem mp_no_leak:
  assumes "net_env_ok env live" and "no_live_session env m w"
    and "mp_getSession env m w = (res, m', w')"
  shows "case res of Inl _ \<Rightarrow> live w' = live w
    | Inr _ \<Rightarrow> \<exists>k. k \<notin> live w \<and> live w' = insert k (live w)"
  using assms by (rule mp_getSession_live)

theorem mp_no_leak_witness:
  "\<exists>m'. mp_getSession demo_net demo_client [] = (Inr (1, Some 1), m', [1])
     \<and> (\<exists>k. k \<notin> set [] \<and> set [1] = insert k (set [] :: nat set))"
proof -
  obtain m' where g: "mp_getSession demo_net demo_client [] = (Inr (1, Some 1), m', [1])"
    using demo_getSession by blast
  from mp_no_leak [OF demo_net_ok demo_no_session g] g show ?thesis by auto
qed

definition reachable_server :: "('w, 'k, 's, 'st) net_env \<Rightarrow> ServerEndpoint \<Rightarrow> bool" where
  "reachable_server env srv \<longleftrightarrow>
     (\<forall>w. \<exists>c w1. dial_server env w srv = (Inr c, w1) \<and> (\<exists>s w2. start_session env w1 c = (Inr s, w2)))"

lemma mp_attempt_reachable:
  assumes "mp_attempt env idx m w r m1 w1" and "reachable_server env (mp_servers m ! idx)"
    and "sint (failCount (mp_servers m ! idx)) < 3"
  shows "r \<noteq> None"
  using assms(1)
proof (cases rule: mp_attempt.cases)
  case passed
  with assms(3) show ?thesis by (simp add: blacklisted_def)
next
  case (no_dial e)
  with assms(2) show ?thesis unfolding reachable_server_def by (metis Pair_inject sum.distinct(1))
next
  case (no_session c w1 e)
  with assms(2) show ?thesis
    unfolding reachable_server_def by (metis Pair_inject sum.distinct(1) sum.sel(2))
qed simp

lemma mp_loop_finds:
  assumes "i \<le> n" and "i \<le> l" and "l < n"
    and "reachable_server env (mp_servers m ! ((start + l) mod n))"
    and "sint (failCount (mp_servers m ! ((start + l) mod n))) < 3"
  shows "\<exists>s idx m' w'. mp_loop env start n i m w = (Inr (s, idx), m', w')"
proof -
  let ?ok = "\<lambda>m. reachable_server env (mp_servers m ! ((start + l) mod n))
    \<and> sint (failCount (mp_servers m ! ((start + l) mod n))) < 3"
  have "case mp_loop env start n i m w of (r, m', w') \<Rightarrow>
      i \<le> l \<and> ?ok m \<longrightarrow> (\<exists>p. r = Inr p)"
    using assms(1)
  proof (induction rule: mp_loop_induct)
    case (exhausted m w)
    show ?case using assms(3) by simp
  next
    case (attempt i m w m1 w1 r m2 w2)
    show ?case
    proof (intro impI, elim conjE)
      assume l: "i \<le> l" and "reachable_server env (mp_servers m ! ((start + l) mod n))"
        and "sint (failCount (mp_servers m ! ((start + l) mod n))) < 3"
      moreover from this mp_attempt_reachable [OF attempt(2)] have "l \<noteq> i" by auto
      ultimately show "\<exists>p. r = Inr p"
        using attempt mp_attempt_other [OF attempt(2,1) assms(3)] by auto
    qed
  qed simp
  with assms show ?thesis by (cases "mp_loop env start n i m w") auto
qed

text \<open>
  (C14) Liveness of failover: if some server of the list has fewer than three recorded
  failures and can be connected to, \<open>getSession\<close> returns a session, whatever the other
  servers do.
\<close>

theorem mp_failover_live:
  assumes "mp_inv m" and "no_live_session env m w" and "k < length (mp_servers m)"
    and "reachable_server env (mp_servers m ! k)" and "sint (failCount (mp_servers m ! k)) < 3"
  shows "\<exists>s srv m' w'. mp_getSession env m w = (Inr (s, Some srv), m', w') \<and> mp_session m' = Some s"
proof -
  have "mp_current m < length (mp_servers m)" using assms(1,3) by (auto simp: mp_inv_def)
  from rotation_surj [OF assms(3) this] obtain l where
    "l < length (mp_servers m)" "(mp_current m + l) mod length (mp_servers m) = k" by blast
  with assms mp_loop_finds [of 0 "length (mp_servers m)" l env m "mp_current m" w]
  obtain s idx m' w' where
    l: "mp_loop env (mp_current m) (length (mp_servers m)) 0 m w = (Inr (s, idx), m', w')"
    by auto
  with mp_getSession_dials [OF assms(2)] mp_loop_post [OF _ _ l] show ?thesis
    by (auto simp: mp_loop_post_def)
qed

theorem mp_failover_live_witness:
  "\<exists>s srv m' w'. mp_getSession demo_net demo_client [] = (Inr (s, Some srv), m', w') \<and> mp_session m' = Some s"
proof -
  have "reachable_server demo_net (mp_servers demo_client ! 1)"
    by (simp add: reachable_server_def demo_client_def NewMultiPathClient_def dial_server_def
        demo_tls demo_session) (simp add: demo_server_def)
  moreover have "mp_inv demo_client" by (simp add: demo_client_def mp_inv_new)
  ultimately show ?thesis
    using mp_failover_live [OF _ demo_no_session, of 1]
    by (simp add: demo_client_def NewMultiPathClient_def) (simp add: demo_server_def)
qed

lemma mp_loop_all_blacklisted:
  assumes "\<forall>k < n. blacklisted (ne_now env w) (mp_servers m ! k)"
  shows "mp_loop env start n i m w = (Inl AllServersDown, m, w)"
proof (induction "n - i" arbitrary: i)
  case 0
  then show ?case by (simp add: mp_loop.simps)
next
  case (Suc d)
  then have "i < n" by simp
  then have "blacklisted (ne_now env w) (mp_servers m ! ((start + i) mod n))"
    using assms by simp
  moreover have "mp_loop env start n (Suc i) m w = (Inl AllServersDown, m, w)"
    using Suc by simp
  ultimately show ?case using \<open>i < n\<close> by (simp add: mp_loop.simps [of env start n i])
qed

text \<open>
  The blacklist: a server with no recorded failures is still dialled after two
  failures; from the third on it is passed over for exactly thirty seconds after the
  latest one. While every server is passed over, \<open>getSession\<close> dials nothing and leaves
  client and world as they are.
\<close>

theorem mp_blacklist_window:
  assumes "failCount srv = 0" and "now - t3 \<le> 2 ^ 62" and "t3 \<le> now"
    and "no_live_session env m w" and "\<forall>s \<in> set (mp_servers m). blacklisted (ne_now env w) s"
  shows "\<not> blacklisted now (markFailedLocked t2 (markFailedLocked t1 srv))
    \<and> (blacklisted now (markFailedLocked t3 (markFailedLocked t2 (markFailedLocked t1 srv)))
         \<longleftrightarrow> now - t3 < 30 * second)
    \<and> mp_getSession env m w = (Inl AllServersDown, m, w)"
proof -
  have "mp_getSession env m w = (Inl AllServersDown, m, w)"
    using assms(4,5) mp_loop_all_blacklisted [of "length (mp_servers m)" env w m]
    by (simp add: mp_getSession_dials)
  moreover have "since now t3 = now - t3" using assms(2,3) by (simp add: since_def)
  ultimately show ?thesis
    using assms(1) by (simp add: blacklisted_def markFailedLocked_def)
qed

theorem mp_blacklist_window_witness:
  "blacklisted (1000 * second) (markFailedLocked (990 * second)
     (markFailedLocked 2 (markFailedLocked 1 (demo_server ''a:443'' ''tls''))))
   \<and> (let m = NewMultiPathClient '':9'' [(demo_server ''a:443'' ''tls'')\<lparr>failCount := 3, lastFail := 999 * second\<rparr>]
      in mp_getSession demo_net m [] = (Inl AllServersDown, m, []))"
proof -
  let ?m = "NewMultiPathClient '':9'' [(demo_server ''a:443'' ''tls'')\<lparr>failCount := 3, lastFail := 999 * second\<rparr>]
     :: nat MultiPathClient"
  have nl: "no_live_session demo_net ?m []" by (simp add: no_live_session_def NewMultiPathClient_def)
  have bl: "\<forall>s \<in> set (mp_servers ?m). blacklisted (ne_now demo_net []) s"
    by (simp add: NewMultiPathClient_def blacklisted_def since_def demo_net_def demo_server_def)
  have fc: "failCount (demo_server ''a:443'' ''tls'') = 0" by (simp add: demo_server_def)
  show ?thesis
    using mp_blacklist_window [OF fc _ _ nl bl, of "1000 * second" "990 * second" 2 1]
    by (simp add: Let_def)
qed

text \<open>
  (C35) A late failure report hits the wrong session: after another connection has got a
  session to server \<open>j\<close>, \<open>markFailed\<close> for a different server \<open>i\<close> (whose session had died
  earlier) closes and forgets the healthy session to \<open>j\<close>, without counting anything
  against \<open>j\<close>.
\<close>

theorem mp_markFailed_closes_other_session:
  assumes "mp_getSession env m w = (Inr (s, Some j), m1, w1)" and "no_live_session env m w"
    and "i \<noteq> j" and "mp_markFailed env i m1 w1 = (m2, w2)"
  shows "mp_session m2 = None \<and> w2 = ne_close_session env w1 s
    \<and> mp_servers m2 ! j = mp_servers m1 ! j"
proof -
  from assms(1,2) obtain r where
    "mp_loop env (mp_current m) (length (mp_servers m)) 0 m w = (r, m1, w1)"
    "Inr (s, Some j) = (case r of Inl e \<Rightarrow> Inl e | Inr (s, idx) \<Rightarrow> Inr (s, Some idx))"
    by (rule mp_getSession_elim)
  then have l: "mp_loop env (mp_current m) (length (mp_servers m)) 0 m w = (Inr (s, j), m1, w1)"
    by (auto split: sum.splits)
  have "mp_session m1 = Some s" using mp_loop_post [OF _ _ l] by (auto simp: mp_loop_post_def)
  with assms(3,4) show ?thesis by (auto simp: mp_markFailed_def mp_mark_def Let_def)
qed

theorem mp_markFailed_closes_other_session_witness:
  "\<exists>m1 m2. mp_getSession demo_net demo_client [] = (Inr (1, Some 1), m1, [1])
     \<and> mp_markFailed demo_net 0 m1 [1] = (m2, []) \<and> mp_session m2 = None"
proof -
  obtain m1 where g: "mp_getSession demo_net demo_client [] = (Inr (1, Some 1), m1, [1])"
    using demo_getSession by blast
  obtain m2 w2 where k: "mp_markFailed demo_net 0 m1 [1] = (m2, w2)" by (metis prod.exhaust)
  from mp_markFailed_closes_other_session [OF g demo_no_session _ k] k g show ?thesis
    by (auto simp: demo_net_def)
qed

end
