(* ===== verification/Raw_Packet_Conn.thy ===== *)
theory Raw_Packet_Conn
  imports Go_Strings
begin

text \<open>
  src/t2tunnel/rawpacketconn.go: a packet connection made of hand-built TCP segments.
  The packet capture library is the record \<open>pcap_env\<close>. A buffered channel is the
  list of its elements; a \<open>select\<close> is the list of the alternatives that are ready,
  of which the runtime takes any. The reader goroutine, the callers of \<open>ReadFrom\<close>,
  \<open>WriteTo\<close> and \<open>Close\<close> and the network are interleaved by the relation \<open>raw_step\<close>.
\<close>

subsection \<open>itoa\<close>

text \<open>
  The 20-byte buffer is kept, and \<open>None\<close> is the panic of an index out of range. The
  argument is an \<open>int\<close> of 64 bits, so that negating it can wrap around.
\<close>

fun itoa_put :: "nat \<Rightarrow> string \<Rightarrow> char \<Rightarrow> (nat \<times> string) option" where
  "itoa_put 0 buf c = None"
| "itoa_put (Suc i) buf c = Some (i, buf[i := c])"

function itoa_loop :: "int \<Rightarrow> nat \<Rightarrow> string \<Rightarrow> (nat \<times> string) option" where
  "itoa_loop n i buf =
     (if 0 < n then
        (case itoa_put i buf (char_of (48 + nat (n mod 10))) of
           None \<Rightarrow> None
         | Some (i', buf') \<Rightarrow> itoa_loop (n div 10) i' buf')
      else Some (i, buf))"
  by pat_completeness auto
termination
  by (relation "measure (\<lambda>(n, i, buf). nat n)") auto

declare itoa_loop.simps [simp del]

definition itoa :: "int \<Rightarrow> string option" where
  "itoa n =
     (if n = 0 then Some ''0''
      else let neg = n < 0; n1 = (if neg then wrap64 (- n) else n)
        in case itoa_loop n1 20 (replicate 20 (CHR 0x00)) of
             None \<Rightarrow> None
           | Some (i, buf) \<Rightarrow>
               (case (if neg then itoa_put i buf (CHR ''-'') else Some (i, buf)) of
                  None \<Rightarrow> None
                | Some (i', buf') \<Rightarrow> Some (drop i' buf')))"

lemma itoa_put_frame:
  assumes "itoa_put i buf c = Some (i', buf')" and "i \<le> length buf"
  shows "Suc i' = i \<and> length buf' = length buf \<and> drop i' buf' = c # drop i buf"
  using assms
  by (cases i) (auto simp: drop_update_swap Cons_nth_drop_Suc [symmetric])

lemma itoa_loop_decimal:
  assumes "0 < n" and "length (decimal (nat n)) \<le> i" and "i \<le> length buf"
  shows "\<exists>i' buf'. itoa_loop n i buf = Some (i', buf') \<and> i' + length (decimal (nat n)) = i
    \<and> length buf' = length buf \<and> drop i' buf' = decimal (nat n) @ drop i buf"
  using assms
proof (induction n i buf rule: itoa_loop.induct)
  case (1 n i buf)
  let ?c = "char_of (48 + nat (n mod 10))"
  have c: "?c = digit_char (nat n mod 10)"
    using 1(2) by (simp add: digit_char_def nat_mod_distrib)
  have dec: "decimal (nat n) = (if nat n < 10 then [] else decimal (nat n div 10)) @ [?c]"
    unfolding c by (subst decimal.simps) auto
  obtain i1 where i: "i = Suc i1"
    using 1(3) by (cases i) auto
  have put: "itoa_put i buf ?c = Some (i1, buf[i1 := ?c])" by (simp add: i)
  have dr: "drop i1 (buf[i1 := ?c]) = ?c # drop i buf"
    using itoa_put_frame [OF put 1(4)] by blast
  show ?case
  proof (cases "nat n < 10")
    case True
    with 1(2) have "n div 10 = 0" by simp
    with put 1(2) have "itoa_loop n i buf = Some (i1, buf[i1 := ?c])"
      by (simp add: itoa_loop.simps [of n] itoa_loop.simps [of 0])
    with dr True dec i show ?thesis by auto
  next
    case False
    with 1(2) have pos: "0 < n div 10" by simp
    have nd: "nat (n div 10) = nat n div 10" using 1(2) by (simp add: nat_div_distrib)
    have "length (decimal (nat (n div 10))) \<le> i1" using 1(3) dec False i nd by simp
    moreover have "i1 \<le> length (buf[i1 := ?c])" using 1(4) i by simp
    ultimately obtain i' buf' where r: "itoa_loop (n div 10) i1 (buf[i1 := ?c]) = Some (i', buf')"
      "i' + length (decimal (nat n div 10)) = i1" "length buf' = length buf"
      "drop i' buf' = decimal (nat n div 10) @ ?c # drop i buf"
      using 1(1) [OF 1(2) put refl pos] nd dr by auto
    with put 1(2) have "itoa_loop n i buf = Some (i', buf')"
      by (simp add: itoa_loop.simps [of n])
    with r dec False i show ?thesis by auto
  qed
qed

text \<open>Every 64-bit magnitude has at most 19 digits, so a sign still fits.\<close>

lemma itoa_loop_int64:
  assumes "0 < n" and "n < 2 ^ 63"
  obtains i buf where "itoa_loop n 20 (replicate 20 (CHR 0x00)) = Some (i, buf)"
    "1 \<le> i" "length buf = 20" "drop i buf = decimal (nat n)"
proof -
  have "nat n < 10 ^ Suc 18" using assms by simp
  then have len: "length (decimal (nat n)) \<le> 19" using length_decimal [of "nat n" 18] by simp
  with itoa_loop_decimal [OF assms(1), of 20 "replicate 20 (CHR 0x00)"] that show thesis
    by auto
qed

lemma itoa_positive: "0 \<le> n \<Longrightarrow> n < 2 ^ 63 \<Longrightarrow> itoa n = Some (decimal (nat n))"
proof (cases "n = 0")
  case True
  have "decimal 0 = ''0''" by code_simp
  with True show ?thesis by (simp add: itoa_def)
next
  case False
  assume "0 \<le> n" "n < 2 ^ 63"
  with False have "0 < n" by simp
  from itoa_loop_int64 [OF this \<open>n < 2 ^ 63\<close>] obtain i buf where
    "itoa_loop n 20 (replicate 20 (CHR 0x00)) = Some (i, buf)" "drop i buf = decimal (nat n)" .
  with False \<open>0 \<le> n\<close> show ?thesis by (simp add: itoa_def)
qed

lemma itoa_negative:
  assumes "- (2 ^ 63) < n" and "n < 0"
  shows "itoa n = Some (CHR ''-'' # decimal (nat (- n)))"
proof -
  have w: "wrap64 (- n) = - n" using assms by (simp add: wrap64_id)
  have "0 < - n" "- n < 2 ^ 63" using assms by simp_all
  then obtain i buf where r: "itoa_loop (- n) 20 (replicate 20 (CHR 0x00)) = Some (i, buf)"
    "1 \<le> i" "length buf = 20" "drop i buf = decimal (nat (- n))" by (rule itoa_loop_int64)
  obtain i1 where i: "i = Suc i1" using r(2) by (cases i) auto
  then have p: "itoa_put i buf (CHR ''-'') = Some (i1, buf[i1 := CHR ''-''])" by simp
  have "i \<le> length buf"
    using r(3,4) decimal_not_Nil by (metis drop_all linorder_le_cases)
  from itoa_put_frame [OF p this] r(4) have
    "drop i1 (buf[i1 := CHR ''-'']) = CHR ''-'' # decimal (nat (- n))" by simp
  with r(1) p w assms(2) show ?thesis by (simp add: itoa_def)
qed

text \<open>
  (C40) For every 64-bit integer \<open>itoa\<close> stays inside its buffer. The result is the decimal
  numeral, with a sign for negative numbers, except for the least integer, whose
  negation wraps around to itself: there the result is a lone minus sign.
\<close>

theorem itoa_correct:
  assumes "- (2 ^ 63) \<le> n" and "n < 2 ^ 63"
  shows "itoa n = Some (if n = - (2 ^ 63) then ''-''
    else if n < 0 then CHR ''-'' # decimal (nat (- n)) else decimal (nat n))"
proof (cases "n = - (2 ^ 63)")
  case True
  have "wrap64 (2 ^ 63) = - (2 ^ 63)" by (simp add: wrap64_def)
  with True show ?thesis
    by (simp add: itoa_def itoa_loop.simps numeral_eq_Suc)
next
  case False
  with assms itoa_positive itoa_negative show ?thesis by simp
qed

theorem itoa_correct_witness:
  "itoa (- 40) = Some (CHR ''-'' # decimal 40) \<and> itoa (- (2 ^ 63)) = Some ''-''"
  using itoa_correct [of "- 40"] itoa_correct [of "- (2 ^ 63)"] by simp

subsection \<open>The connection\<close>

record rawAddr =
  ra_ip :: "bytes option"
  ra_port :: u16

text \<open>\<open>net.IP.String\<close> is the argument \<open>ip_string\<close>; \<open>None\<close> is the nil address.\<close>

definition rawAddr_String :: "(bytes option \<Rightarrow> string) \<Rightarrow> rawAddr \<Rightarrow> string option" where
  "rawAddr_String ip_string a =
     map_option (\<lambda>p. ip_string (ra_ip a) @ '':'' @ p) (itoa (uint (ra_port a)))"

record 'h rawPacketConn =
  rp_handle :: 'h
  rp_srcMAC :: bytes
  rp_dstMAC :: bytes
  rp_srcIP :: "bytes option"
  rp_dstIP :: "bytes option"
  rp_srcPort :: u16
  rp_dstPort :: u16
  rp_peerAddr :: rawAddr
  recvCh :: "bytes list"
  closeCh :: bool
  closeOnce :: bool
  readDeadline :: "time option"
  seqNum :: u32

record Ethernet =
  eth_SrcMAC :: bytes
  eth_DstMAC :: bytes
  eth_EthernetType :: string

record IPv4 =
  ip_Version :: nat
  ip_TTL :: nat
  ip_Protocol :: string
  ip_SrcIP :: "bytes option"
  ip_DstIP :: "bytes option"

record TCP =
  tcp_SrcPort :: u16
  tcp_DstPort :: u16
  tcp_PSH :: bool
  tcp_ACK :: bool
  tcp_Window :: u16
  tcp_Seq :: u32
  tcp_Ack :: u32

text \<open>
  The libraries: address parsing (\<open>net.ParseMAC\<close>, and \<open>net.ParseIP\<close> followed by
  \<open>To4\<close>), packet capture and packet serialisation.
\<close>

record ('w, 'h) pcap_env =
  ParseMAC :: "string \<Rightarrow> go_error + bytes"
  ParseIP4 :: "string \<Rightarrow> bytes option"
  OpenLive :: "'w \<Rightarrow> string \<Rightarrow> nat \<Rightarrow> bool \<Rightarrow> (go_error + 'h) \<times> 'w"
  SetBPFFilter :: "'w \<Rightarrow> 'h \<Rightarrow> string \<Rightarrow> go_error option \<times> 'w"
  CloseHandle :: "'w \<Rightarrow> 'h \<Rightarrow> 'w"
  SerializeLayers :: "Ethernet \<Rightarrow> IPv4 \<Rightarrow> TCP \<Rightarrow> bytes \<Rightarrow> go_error + bytes"
  WritePacketData :: "'w \<Rightarrow> 'h \<Rightarrow> bytes \<Rightarrow> go_error option \<times> 'w"

definition raw_filter :: "string \<Rightarrow> u16 \<Rightarrow> u16 \<Rightarrow> string option" where
  "raw_filter dstIP srcPort dstPort =
     (case itoa (uint dstPort) of
        None \<Rightarrow> None
      | Some d \<Rightarrow>
          (case itoa (uint srcPort) of
             None \<Rightarrow> None
           | Some s \<Rightarrow> Some (''tcp and src host '' @ dstIP @ '' and src port '' @ d @ '' and dst port '' @ s)))"

text \<open>\<open>None\<close> is the panic \<open>itoa\<close> would raise.\<close>

definition NewRawPacketConn ::
  "('w, 'h) pcap_env \<Rightarrow> 'w \<Rightarrow> string \<Rightarrow> string \<Rightarrow> string \<Rightarrow> string \<Rightarrow> string \<Rightarrow> u16 \<Rightarrow> u16
     \<Rightarrow> (go_error + 'h rawPacketConn) option \<times> 'w" where
  "NewRawPacketConn env w iface srcMAC dstMAC srcIP dstIP srcPort dstPort =
     (case ParseMAC env srcMAC of
        Inl e \<Rightarrow> (Some (Inl e), w)
      | Inr sMAC \<Rightarrow>
      (case ParseMAC env dstMAC of
        Inl e \<Rightarrow> (Some (Inl e), w)
      | Inr dMAC \<Rightarrow>
      (case OpenLive env w iface 65536 True of
        (Inl e, w1) \<Rightarrow> (Some (Inl e), w1)
      | (Inr h, w1) \<Rightarrow>
      (case raw_filter dstIP srcPort dstPort of
        None \<Rightarrow> (None, w1)
      | Some flt \<Rightarrow>
      (case SetBPFFilter env w1 h flt of
        (Some e, w2) \<Rightarrow> (Some (Inl e), CloseHandle env w2 h)
      | (None, w2) \<Rightarrow>
          (Some (Inr
             \<lparr>rp_handle = h, rp_srcMAC = sMAC, rp_dstMAC = dMAC,
              rp_srcIP = ParseIP4 env srcIP, rp_dstIP = ParseIP4 env dstIP,
              rp_srcPort = srcPort, rp_dstPort = dstPort,
              rp_peerAddr = \<lparr>ra_ip = ParseIP4 env dstIP, ra_port = dstPort\<rparr>,
              recvCh = [], closeCh = False, closeOnce = False, readDeadline = None,
              seqNum = 1000\<rparr>), w2))))))"

text \<open>
  One turn of \<open>readLoop\<close>. The argument says what the packet source offers: nothing
  yet, the end of its channel, or a packet with the payload of its application layer,
  \<open>None\<close> if it has none. Each result says whether the loop goes on.
\<close>

datatype packet_offer = NoPacket | SourceClosed | Packet "bytes option"

definition readLoop_deliver :: "'h rawPacketConn \<Rightarrow> bytes \<Rightarrow> (bool \<times> 'h rawPacketConn) list" where
  "readLoop_deliver c data =
     (let ready = (if length (recvCh c) < 1024 then [(True, c\<lparr>recvCh := recvCh c @ [data]\<rparr>)] else [])
                  @ (if closeCh c then [(False, c)] else [])
      in if ready = [] then [(True, c)] else ready)"

definition readLoop_iter :: "'h rawPacketConn \<Rightarrow> packet_offer \<Rightarrow> (bool \<times> 'h rawPacketConn) list" where
  "readLoop_iter c offer =
     (if closeCh c then [(False, c)] else [])
     @ (case offer of
          NoPacket \<Rightarrow> []
        | SourceClosed \<Rightarrow> [(False, c)]
        | Packet app \<Rightarrow>
            (case app of
               None \<Rightarrow> [(True, c)]
             | Some data \<Rightarrow> if data = [] then [(True, c)] else readLoop_deliver c data))"

text \<open>
  \<open>ReadFrom\<close> with a buffer of \<open>plen\<close> bytes: first the deadline is examined, at time
  \<open>now\<close>; then the \<open>select\<close> runs, on the connection as it is by then, at time \<open>t\<close>. A
  successful result holds the count, the bytes copied and the peer's address.
\<close>

definition ReadFrom_deadline :: "'h rawPacketConn \<Rightarrow> time \<Rightarrow> go_error option" where
  "ReadFrom_deadline c now =
     (case readDeadline c of Some d \<Rightarrow> if d - now \<le> 0 then Some TimeoutErr else None | None \<Rightarrow> None)"

definition ReadFrom_select ::
  "'h rawPacketConn \<Rightarrow> time option \<Rightarrow> time \<Rightarrow> nat
     \<Rightarrow> ((go_error + nat \<times> bytes \<times> rawAddr) \<times> 'h rawPacketConn) list" where
  "ReadFrom_select c dl t plen =
     (if closeCh c then [(Inl NetClosed, c)] else [])
     @ (case recvCh c of
          [] \<Rightarrow> []
        | data # rest \<Rightarrow> [(Inr (min plen (length data), take plen data, rp_peerAddr c), c\<lparr>recvCh := rest\<rparr>)])
     @ (case dl of None \<Rightarrow> [] | Some d \<Rightarrow> if d \<le> t then [(Inl TimeoutErr, c)] else [])"

definition raw_ReadFrom ::
  "'h rawPacketConn \<Rightarrow> time \<Rightarrow> time \<Rightarrow> nat
     \<Rightarrow> ((go_error + nat \<times> bytes \<times> rawAddr) \<times> 'h rawPacketConn) list" where
  "raw_ReadFrom c now t plen =
     (case ReadFrom_deadline c now of
        Some e \<Rightarrow> [(Inl e, c)]
      | None \<Rightarrow> ReadFrom_select c (readDeadline c) t plen)"

definition raw_WriteTo ::
  "('w, 'h) pcap_env \<Rightarrow> 'h rawPacketConn \<Rightarrow> 'w \<Rightarrow> bytes
     \<Rightarrow> (go_error + nat) \<times> 'h rawPacketConn \<times> 'w" where
  "raw_WriteTo env c w p =
     (let eth = \<lparr>eth_SrcMAC = rp_srcMAC c, eth_DstMAC = rp_dstMAC c, eth_EthernetType = ''IPv4''\<rparr>;
          ip = \<lparr>ip_Version = 4, ip_TTL = 64, ip_Protocol = ''TCP'',
                ip_SrcIP = rp_srcIP c, ip_DstIP = rp_dstIP c\<rparr>;
          tcp = \<lparr>tcp_SrcPort = rp_srcPort c, tcp_DstPort = rp_dstPort c, tcp_PSH = True, tcp_ACK = True,
                 tcp_Window = 64240, tcp_Seq = seqNum c, tcp_Ack = 1\<rparr>
      in case SerializeLayers env eth ip tcp p of
           Inl e \<Rightarrow> (Inl e, c, w)
         | Inr buf \<Rightarrow>
             (let c1 = c\<lparr>seqNum := seqNum c + of_nat (length p)\<rparr>
              in case WritePacketData env w (rp_handle c) buf of
                   (Some e, w1) \<Rightarrow> (Inl e, c1, w1)
                 | (None, w1) \<Rightarrow> (Inr (length p), c1, w1)))"

definition raw_Close :: "('w, 'h) pcap_env \<Rightarrow> 'h rawPacketConn \<Rightarrow> 'w \<Rightarrow> 'h rawPacketConn \<times> 'w" where
  "raw_Close env c w =
     (if closeOnce c then (c, w)
      else (c\<lparr>closeCh := True, closeOnce := True\<rparr>, CloseHandle env w (rp_handle c)))"

definition raw_LocalAddr :: "'h rawPacketConn \<Rightarrow> rawAddr" where
  "raw_LocalAddr c = \<lparr>ra_ip = rp_srcIP c, ra_port = rp_srcPort c\<rparr>"

definition raw_SetDeadline :: "'h rawPacketConn \<Rightarrow> time option \<Rightarrow> 'h rawPacketConn" where
  "raw_SetDeadline c t = c\<lparr>readDeadline := t\<rparr>"

definition raw_SetReadDeadline :: "'h rawPacketConn \<Rightarrow> time option \<Rightarrow> 'h rawPacketConn" where
  "raw_SetReadDeadline c t = c\<lparr>readDeadline := t\<rparr>"

definition raw_SetWriteDeadline :: "'h rawPacketConn \<Rightarrow> time option \<Rightarrow> 'h rawPacketConn" where
  "raw_SetWriteDeadline c t = c"

subsection \<open>Opening and closing\<close>

text \<open>
  What the code relies on of the capture library, through the set \<open>live\<close> of handles
  open in a world: opening gives a new handle or none, a filter changes no handle.
\<close>

definition pcap_ok :: "('w, 'h) pcap_env \<Rightarrow> ('w \<Rightarrow> 'h set) \<Rightarrow> bool" where
  "pcap_ok env live \<longleftrightarrow>
     (\<forall>w i n p. case OpenLive env w i n p of
        (Inl _, w1) \<Rightarrow> live w1 = live w | (Inr h, w1) \<Rightarrow> h \<notin> live w \<and> live w1 = insert h (live w))
   \<and> (\<forall>w h f. live (snd (SetBPFFilter env w h f)) = live w)
   \<and> (\<forall>w h. live (CloseHandle env w h) = live w - {h})"

lemma pcap_ok_open:
  assumes "pcap_ok env live" and "OpenLive env w i n p = (r, w1)"
  shows "case r of Inl _ \<Rightarrow> live w1 = live w | Inr h \<Rightarrow> h \<notin> live w \<and> live w1 = insert h (live w)"
proof -
  have "case OpenLive env w i n p of
      (Inl _, w1) \<Rightarrow> live w1 = live w | (Inr h, w1) \<Rightarrow> h \<notin> live w \<and> live w1 = insert h (live w)"
    using assms(1) by (simp add: pcap_ok_def)
  with assms(2) show ?thesis by simp
qed

lemma pcap_ok_filter:
  assumes "pcap_ok env live" and "SetBPFFilter env w h f = (r, w1)"
  shows "live w1 = live w"
proof -
  have "live (snd (SetBPFFilter env w h f)) = live w" using assms(1) by (simp add: pcap_ok_def)
  with assms(2) show ?thesis by simp
qed

lemma pcap_ok_close: "pcap_ok env live \<Longrightarrow> live (CloseHandle env w h) = live w - {h}"
  by (simp add: pcap_ok_def)

lemma itoa_port: "itoa (uint (p :: u16)) = Some (decimal (unat p))"
proof -
  have "uint p < 2 ^ 16" using uint_bounded [of p] by simp
  then have "itoa (uint p) = Some (decimal (nat (uint p)))" by (intro itoa_positive) auto
  then show ?thesis by simp
qed

lemma raw_filter_eq:
  "raw_filter dstIP srcPort dstPort =
     Some (''tcp and src host '' @ dstIP @ '' and src port '' @ decimal (unat dstPort)
       @ '' and dst port '' @ decimal (unat srcPort))"
  by (simp add: raw_filter_def itoa_port)

lemma rawAddr_String_eq:
  "rawAddr_String ips a = Some (ips (ra_ip a) @ '':'' @ decimal (unat (ra_port a)))"
  by (simp add: rawAddr_String_def itoa_port)

text \<open>The states of a connection just opened.\<close>

definition raw_fresh :: "'h rawPacketConn \<Rightarrow> bool" where
  "raw_fresh c \<longleftrightarrow> recvCh c = [] \<and> \<not> closeCh c \<and> \<not> closeOnce c \<and> readDeadline c = None
     \<and> seqNum c = 1000 \<and> rp_peerAddr c = \<lparr>ra_ip = rp_dstIP c, ra_port = rp_dstPort c\<rparr>"

lemma raw_open_cases:
  assumes "pcap_ok env live"
    and "NewRawPacketConn env w iface srcMAC dstMAC srcIP dstIP srcPort dstPort = (r, w')"
  shows "case r of
      None \<Rightarrow> False
    | Some (Inl e) \<Rightarrow> live w' = live w
    | Some (Inr c) \<Rightarrow> rp_handle c \<notin> live w \<and> live w' = insert (rp_handle c) (live w) \<and> raw_fresh c
        \<and> rp_srcPort c = srcPort \<and> rp_dstPort c = dstPort
        \<and> (\<exists>w1. SetBPFFilter env w1 (rp_handle c)
              (''tcp and src host '' @ dstIP @ '' and src port '' @ decimal (unat dstPort)
               @ '' and dst port '' @ decimal (unat srcPort)) = (None, w'))"
proof (cases "ParseMAC env srcMAC")
  case (Inl e)
  with assms(2) show ?thesis by (auto simp: NewRawPacketConn_def)
next
  case (Inr sMAC)
  note s = this
  show ?thesis
  proof (cases "ParseMAC env dstMAC")
    case (Inl e)
    with s assms(2) show ?thesis by (auto simp: NewRawPacketConn_def)
  next
    case (Inr dMAC)
    note d = this
    obtain h w1 where o: "OpenLive env w iface 65536 True = (h, w1)" by (metis prod.exhaust)
    note live1 = pcap_ok_open [OF assms(1) o]
    show ?thesis
    proof (cases h)
      case (Inl e)
      with s d o assms(2) live1 show ?thesis by (auto simp: NewRawPacketConn_def)
    next
      case (Inr hd)
      obtain f w2 where f: "SetBPFFilter env w1 hd
          (''tcp and src host '' @ dstIP @ '' and src port '' @ decimal (unat dstPort)
               @ '' and dst port '' @ decimal (unat srcPort)) = (f, w2)" by (metis prod.exhaust)
      have "live w2 = live w1" by (rule pcap_ok_filter [OF assms(1) f])
      then show ?thesis
        using Inr s d o assms(2) live1 f pcap_ok_close [OF assms(1)]
        by (cases f) (auto simp: NewRawPacketConn_def raw_filter_eq raw_fresh_def)
    qed
  qed
qed

text \<open>
  (C30) Opening never panics. It fails without leaving a capture handle open, or returns a
  connection, fresh, on the one handle it added; and then the filter was installed that
  selects the segments from the peer's address and port to our port.
\<close>

theorem raw_open_no_leak:
  assumes "pcap_ok env live"
    and "NewRawPacketConn env w iface srcMAC dstMAC srcIP dstIP srcPort dstPort = (r, w')"
  shows "case r of
      None \<Rightarrow> False
    | Some (Inl e) \<Rightarrow> live w' = live w
    | Some (Inr c) \<Rightarrow> rp_handle c \<notin> live w \<and> live w' = insert (rp_handle c) (live w) \<and> raw_fresh c
        \<and> rp_srcPort c = srcPort \<and> rp_dstPort c = dstPort
        \<and> (\<exists>w1. SetBPFFilter env w1 (rp_handle c)
              (''tcp and src host '' @ dstIP @ '' and src port '' @ decimal (unat dstPort)
               @ '' and dst port '' @ decimal (unat srcPort)) = (None, w'))"
  using assms by (rule raw_open_cases)

definition demo_pcap :: "(nat list, nat) pcap_env" where
  "demo_pcap =
     \<lparr>ParseMAC = (\<lambda>s. if s = [] then Inl (OtherErr ''invalid MAC address'') else Inr [0, 1, 2, 3, 4, 5]),
      ParseIP4 = (\<lambda>s. Some [10, 0, 0, 1]),
      OpenLive = (\<lambda>w i n p. (Inr (Suc (foldr max w 0)), Suc (foldr max w 0) # w)),
      SetBPFFilter = (\<lambda>w h f. (None, w)),
      CloseHandle = (\<lambda>w h. filter (\<lambda>x. x \<noteq> h) w),
      SerializeLayers = (\<lambda>eth ip tcp p. Inr p),
      WritePacketData = (\<lambda>w h buf. (None, w))\<rparr>"

lemma foldr_max_bound: "x \<in> set w \<Longrightarrow> x \<le> foldr max w (0 :: nat)"
  by (induction w) auto

lemma demo_pcap_ok: "pcap_ok demo_pcap set"
proof -
  have "Suc (foldr max w 0) \<notin> set w" for w using foldr_max_bound [of "Suc (foldr max w 0)" w] by auto
  then show ?thesis by (auto simp: pcap_ok_def demo_pcap_def)
qed

definition demo_raw :: "nat rawPacketConn" where
  "demo_raw =
     \<lparr>rp_handle = 1, rp_srcMAC = [0, 1, 2, 3, 4, 5], rp_dstMAC = [0, 1, 2, 3, 4, 5],
      rp_srcIP = Some [10, 0, 0, 1], rp_dstIP = Some [10, 0, 0, 1], rp_srcPort = 4000, rp_dstPort = 5000,
      rp_peerAddr = \<lparr>ra_ip = Some [10, 0, 0, 1], ra_port = 5000\<rparr>, recvCh = [], closeCh = False,
      closeOnce = False, readDeadline = None, seqNum = 1000\<rparr>"

lemma demo_raw_open:
  "NewRawPacketConn demo_pcap [] ''eth0'' ''m'' ''m'' ''10.0.0.1'' ''10.0.0.1'' 4000 5000 = (Some (Inr demo_raw), [1])"
  by (simp add: NewRawPacketConn_def demo_pcap_def raw_filter_eq demo_raw_def)

theorem raw_open_no_leak_witness:
  "NewRawPacketConn demo_pcap [] ''eth0'' ''m'' ''m'' ''10.0.0.1'' ''10.0.0.1'' 4000 5000 = (Some (Inr demo_raw), [1])
   \<and> raw_fresh demo_raw \<and> set [1] = insert (rp_handle demo_raw) (set [])"
  using raw_open_no_leak [OF demo_pcap_ok demo_raw_open] demo_raw_open by simp

subsection \<open>The channel between the reader and its callers\<close>

text \<open>
  A running connection: the record, whether \<open>readLoop\<close> still runs, and, for the
  statements only, the payloads that arrived, those handed to callers of \<open>ReadFrom\<close>,
  the number dropped and the number of payload bytes serialised.
\<close>

record 'h raw_system =
  rs_conn :: "'h rawPacketConn"
  rs_reader :: bool
  rs_arrived :: "bytes list"
  rs_delivered :: "bytes list"
  rs_dropped :: nat
  rs_serialized :: nat

definition raw_start :: "'h rawPacketConn \<Rightarrow> 'h raw_system" where
  "raw_start c = \<lparr>rs_conn = c, rs_reader = True, rs_arrived = [], rs_delivered = [], rs_dropped = 0,
     rs_serialized = 0\<rparr>"

text \<open>The payload an offer brings, if the loop does not skip it.\<close>

definition offered :: "packet_offer \<Rightarrow> bytes list" where
  "offered offer = (case offer of Packet (Some data) \<Rightarrow> if data = [] then [] else [data] | _ \<Rightarrow> [])"

inductive raw_step :: "('w, 'h) pcap_env \<Rightarrow> 'h raw_system \<times> 'w \<Rightarrow> 'h raw_system \<times> 'w \<Rightarrow> bool" for env where
  reader: "\<lbrakk>rs_reader s; (go, c') \<in> set (readLoop_iter (rs_conn s) offer)\<rbrakk> \<Longrightarrow>
    raw_step env (s, w) (s\<lparr>rs_conn := c', rs_reader := go, rs_arrived := rs_arrived s @ offered offer,
      rs_dropped := rs_dropped s + length (recvCh (rs_conn s)) + length (offered offer) - length (recvCh c')\<rparr>, w)"
| read_ok: "(Inr (n, p, a), c') \<in> set (ReadFrom_select (rs_conn s) dl t plen) \<Longrightarrow>
    raw_step env (s, w) (s\<lparr>rs_conn := c', rs_delivered := rs_delivered s @ [hd (recvCh (rs_conn s))]\<rparr>, w)"
| read_err: "(Inl e, c') \<in> set (ReadFrom_select (rs_conn s) dl t plen) \<Longrightarrow>
    raw_step env (s, w) (s\<lparr>rs_conn := c'\<rparr>, w)"
| sent: "\<lbrakk>raw_WriteTo env (rs_conn s) w p = (r, c', w'); c' \<noteq> rs_conn s \<or> r = Inr (length p)\<rbrakk> \<Longrightarrow>
    raw_step env (s, w) (s\<lparr>rs_conn := c', rs_serialized := rs_serialized s + length p\<rparr>, w')"
| not_sent: "\<lbrakk>raw_WriteTo env (rs_conn s) w p = (Inl e, c', w'); c' = rs_conn s\<rbrakk> \<Longrightarrow>
    raw_step env (s, w) (s\<lparr>rs_conn := c'\<rparr>, w')"
| close: "raw_Close env (rs_conn s) w = (c', w') \<Longrightarrow> raw_step env (s, w) (s\<lparr>rs_conn := c'\<rparr>, w')"
| deadline: "raw_step env (s, w) (s\<lparr>rs_conn := raw_SetReadDeadline (rs_conn s) t\<rparr>, w)"
| world: "raw_step env (s, w) (s, w')"

definition raw_inv :: "'h raw_system \<Rightarrow> bool" where
  "raw_inv s \<longleftrightarrow>
     length (recvCh (rs_conn s)) \<le> 1024
   \<and> [] \<notin> set (recvCh (rs_conn s))
   \<and> subseq (rs_delivered s @ recvCh (rs_conn s)) (rs_arrived s)
   \<and> length (rs_arrived s) = length (rs_delivered s) + length (recvCh (rs_conn s)) + rs_dropped s
   \<and> seqNum (rs_conn s) = 1000 + of_nat (rs_serialized s)
   \<and> (closeCh (rs_conn s) \<longleftrightarrow> closeOnce (rs_conn s))"

lemma raw_inv_start: "raw_fresh c \<Longrightarrow> raw_inv (raw_start c)"
  by (simp add: raw_inv_def raw_start_def raw_fresh_def)

text \<open>A turn of the loop either keeps the connection or queues the offered payload.\<close>

lemma readLoop_iter_cases:
  assumes "(go, c') \<in> set (readLoop_iter c offer)"
  obtains (kept) "c' = c" "offered offer = []"
  | (queued) data where "go" "offered offer = [data]" "data \<noteq> []" "length (recvCh c) < 1024"
      "c' = c\<lparr>recvCh := recvCh c @ [data]\<rparr>"
  | (dropped) data where "offered offer = [data]" "c' = c" "closeCh c \<or> length (recvCh c) \<ge> 1024"
  using assms
  by (auto simp: readLoop_iter_def readLoop_deliver_def offered_def Let_def
      split: packet_offer.splits option.splits if_splits)

lemma raw_WriteTo_conn:
  assumes "raw_WriteTo env c w p = (r, c', w')"
  shows "c' = c\<lparr>seqNum := seqNum c + of_nat (length p)\<rparr> \<or> (c' = c \<and> (\<exists>e. r = Inl e))"
  using assms
  by (auto simp: raw_WriteTo_def Let_def split: sum.splits prod.splits option.splits)

lemma ReadFrom_select_ok:
  assumes "(Inr (n, p, a), c') \<in> set (ReadFrom_select c dl t plen)"
  obtains data rest where "recvCh c = data # rest" "c' = c\<lparr>recvCh := rest\<rparr>"
    "n = min plen (length data)" "p = take plen data" "a = rp_peerAddr c"
proof -
  from assms have "recvCh c \<noteq> []"
    by (auto simp: ReadFrom_select_def split: option.splits if_splits)
  then obtain data rest where q: "recvCh c = data # rest" by (cases "recvCh c") auto
  with assms show thesis
    by (intro that [OF q]) (auto simp: ReadFrom_select_def split: option.splits if_splits)
qed

lemma ReadFrom_select_err:
  assumes "(Inl e, c') \<in> set (ReadFrom_select c dl t plen)"
  shows "c' = c" "e = NetClosed \<and> closeCh c \<or> e = TimeoutErr \<and> (\<exists>d. dl = Some d \<and> d \<le> t)"
  using assms by (auto simp: ReadFrom_select_def split: list.splits option.splits if_splits)

lemma raw_step_inv:
  assumes "raw_step env (s, w) (s', w')" and "raw_inv s"
  shows "raw_inv s'"
  using assms
proof (cases rule: raw_step.cases)
  case (reader go c' offer)
  from reader(4) show ?thesis
  proof (cases rule: readLoop_iter_cases)
    case kept
    with reader assms(2) show ?thesis by (simp add: raw_inv_def)
  next
    case (queued data)
    have "subseq ((rs_delivered s @ recvCh (rs_conn s)) @ [data]) (rs_arrived s @ [data])"
      using assms(2) by (intro list_emb_append_mono) (simp_all add: raw_inv_def)
    with queued reader assms(2) show ?thesis by (simp add: raw_inv_def)
  next
    case (dropped data)
    have "subseq (rs_delivered s @ recvCh (rs_conn s)) (rs_arrived s @ [data])"
      using assms(2) by (simp add: raw_inv_def subseq_rev_drop_many)
    with dropped reader assms(2) show ?thesis by (simp add: raw_inv_def)
  qed
next
  case (read_ok n p a c' dl t plen)
  from read_ok(3) obtain data rest where "recvCh (rs_conn s) = data # rest"
    "c' = rs_conn s\<lparr>recvCh := rest\<rparr>" by (rule ReadFrom_select_ok)
  with read_ok assms(2) show ?thesis by (simp add: raw_inv_def)
next
  case (read_err e c' dl t plen)
  with ReadFrom_select_err(1) [OF read_err(3)] assms(2) show ?thesis by (simp add: raw_inv_def)
next
  case (sent p r c')
  have c': "c' = rs_conn s\<lparr>seqNum := seqNum (rs_conn s) + of_nat (length p)\<rparr>"
    using raw_WriteTo_conn [OF sent(2)] sent(3) by blast
  from assms(2) show ?thesis unfolding sent(1) c' by (simp add: raw_inv_def)
next
  case (not_sent p e c')
  with assms(2) show ?thesis by (simp add: raw_inv_def)
next
  case (close c')
  with assms(2) show ?thesis by (auto simp: raw_inv_def raw_Close_def split: if_splits)
next
  case (deadline t)
  with assms(2) show ?thesis by (simp add: raw_inv_def raw_SetReadDeadline_def)
qed simp


definition demo_sys :: "bool \<Rightarrow> bytes list \<Rightarrow> bytes list \<Rightarrow> bytes list \<Rightarrow> nat raw_system" where
  "demo_sys go q arr del = \<lparr>rs_conn = demo_raw\<lparr>recvCh := q\<rparr>, rs_reader = go, rs_arrived = arr,
     rs_delivered = del, rs_dropped = 0, rs_serialized = 0\<rparr>"

lemma demo_arrive:
  "data \<noteq> [] \<Longrightarrow> length q < 1024 \<Longrightarrow>
     raw_step env (demo_sys True q arr del, w) (demo_sys True (q @ [data]) (arr @ [data]) del, w)"
  using raw_step.reader [of "demo_sys True q arr del" True "demo_raw\<lparr>recvCh := q @ [data]\<rparr>" "Packet (Some data)"]
  by (simp add: demo_sys_def readLoop_iter_def readLoop_deliver_def offered_def)

lemma demo_take:
  "raw_step env (demo_sys go (d # q) arr del, w) (demo_sys go q arr (del @ [d]), w)"
  using raw_step.read_ok [of "length d" d "rp_peerAddr demo_raw" "demo_raw\<lparr>recvCh := q\<rparr>" "demo_sys go (d # q) arr del"
      None 0 "length d"]
  by (simp add: demo_sys_def ReadFrom_select_def demo_raw_def)


text \<open>
  (C29) \<open>Close\<close> and deadlines. Closing twice is closing once, releases the capture handle
  and lets every goroutine go on: \<open>readLoop\<close> can leave at once and \<open>ReadFrom\<close> never
  blocks. A read whose deadline has passed on entry times out and consumes nothing;
  one with a later deadline never blocks beyond it; a result is at most one datagram,
  cut to the buffer.
\<close>

theorem raw_close_unblocks:
  assumes "pcap_ok env live" and "\<not> closeOnce c" and "raw_Close env c w = (c1, w1)"
  shows "live w1 = live w - {rp_handle c}
    \<and> raw_Close env c1 w1 = (c1, w1)
    \<and> (\<forall>offer. (False, c1) \<in> set (readLoop_iter c1 offer))
    \<and> (\<forall>now t plen. raw_ReadFrom c1 now t plen \<noteq> [])
    \<and> (\<forall>d now t plen. d \<le> now \<longrightarrow>
         raw_ReadFrom (raw_SetReadDeadline c (Some d)) now t plen = [(Inl TimeoutErr, raw_SetReadDeadline c (Some d))])
    \<and> (\<forall>d now t plen. d \<le> t \<longrightarrow> raw_ReadFrom (raw_SetReadDeadline c (Some d)) now t plen \<noteq> [])
    \<and> (\<forall>n p a c2 now t plen. (Inr (n, p, a), c2) \<in> set (raw_ReadFrom c now t plen) \<longrightarrow>
         (\<exists>data. recvCh c = data # recvCh c2 \<and> p = take plen data \<and> n = length p \<and> a = rp_peerAddr c))"
proof -
  have c1: "c1 = c\<lparr>closeCh := True, closeOnce := True\<rparr>" "w1 = CloseHandle env w (rp_handle c)"
    using assms(2,3) by (auto simp: raw_Close_def)
  have ok: "\<exists>data. recvCh c = data # recvCh c2 \<and> p = take plen data \<and> n = length p \<and> a = rp_peerAddr c"
    if r: "(Inr (n, p, a), c2) \<in> set (raw_ReadFrom c now t plen)" for n p a c2 now t plen
  proof -
    have "(Inr (n, p, a), c2) \<in> set (ReadFrom_select c (readDeadline c) t plen)"
      using r by (auto simp: raw_ReadFrom_def split: option.splits)
    then show ?thesis by (rule ReadFrom_select_ok) (simp add: min.commute)
  qed
  show ?thesis
    using pcap_ok_close [OF assms(1)] ok
    by (auto simp: c1 raw_Close_def readLoop_iter_def raw_ReadFrom_def ReadFrom_select_def
        ReadFrom_deadline_def raw_SetReadDeadline_def split: option.splits)
qed

theorem raw_close_unblocks_witness:
  "raw_Close demo_pcap demo_raw [1, 7] = (demo_raw\<lparr>closeCh := True, closeOnce := True\<rparr>, [7])
   \<and> (\<forall>now t plen. raw_ReadFrom (demo_raw\<lparr>closeCh := True, closeOnce := True\<rparr>) now t plen \<noteq> [])"
proof -
  have c: "raw_Close demo_pcap demo_raw [1, 7] = (demo_raw\<lparr>closeCh := True, closeOnce := True\<rparr>, [7])"
    by (simp add: raw_Close_def demo_pcap_def demo_raw_def)
  have "\<not> closeOnce demo_raw" by (simp add: demo_raw_def)
  from raw_close_unblocks [OF demo_pcap_ok this c] c show ?thesis by blast
qed

lemma NewRawPacketConn_no_panic:
  "fst (NewRawPacketConn env w iface srcMAC dstMAC srcIP dstIP srcPort dstPort) \<noteq> None"
proof -
  obtain h w1 where h: "OpenLive env w iface 65536 True = (h, w1)" by (metis prod.exhaust)
  obtain f where f: "raw_filter dstIP srcPort dstPort = Some f" using raw_filter_eq by blast
  have "\<exists>r w2. SetBPFFilter env w1 x f = (r, w2)" for x by (metis prod.exhaust)
  then show ?thesis
    using h f by (cases h) (auto simp: NewRawPacketConn_def split: sum.splits option.splits prod.splits)
qed

end
