(* ===== verification/Server_Sessions.thy ===== *)
theory Server_Sessions
  imports Session_Setup Raw_Packet_Conn
begin

text \<open>
  The server side: \<open>dialTCP\<close> and \<open>listenTCP\<close> (src/t2tunnel/net.go), the handlers
  \<open>handleServerSession\<close> (engine.go) and \<open>handleTLSServerSession\<close> (engine_tls.go), and
  the accept loops of \<open>runServer\<close>, \<open>runServerTLS\<close>, \<open>runServerWS\<close> and \<open>runServerRaw\<close>.
  A loop that accepts is a function of the sequence of results its accept call has
  returned so far; what it starts or closes is the list of its actions. The actions of
  one stream's goroutine are listed together, where the stream is accepted.
\<close>

subsection \<open>net.go\<close>

record Dialer =
  d_Timeout :: duration
  d_KeepAlive :: duration

record ('w, 'o, 'l) tcp_env =
  te_dial :: "'w \<Rightarrow> Dialer \<Rightarrow> string \<Rightarrow> string \<Rightarrow> (go_error + 'o) \<times> 'w"
  te_is_tcp :: "'o \<Rightarrow> bool"
  te_set_nodelay :: "'w \<Rightarrow> 'o \<Rightarrow> bool \<Rightarrow> 'w"
  te_listen :: "'w \<Rightarrow> string \<Rightarrow> string \<Rightarrow> (go_error + 'l) \<times> 'w"

definition dialTCP :: "('w, 'o, 'l) tcp_env \<Rightarrow> 'w \<Rightarrow> string \<Rightarrow> (go_error + 'o) \<times> 'w" where
  "dialTCP env w addr =
     (case te_dial env w \<lparr>d_Timeout = 10 * second, d_KeepAlive = 15 * second\<rparr> ''tcp'' addr of
        (Inl e, w1) \<Rightarrow> (Inl e, w1)
      | (Inr conn, w1) \<Rightarrow>
          (Inr conn, if te_is_tcp env conn then te_set_nodelay env w1 conn True else w1))"

definition listenTCP :: "('w, 'o, 'l) tcp_env \<Rightarrow> 'w \<Rightarrow> string \<Rightarrow> (go_error + 'l) \<times> 'w" where
  "listenTCP env w addr = te_listen env w ''tcp'' addr"

subsection \<open>One tunnel connection\<close>

datatype ('k, 's, 'st, 'o) server_action =
    PipeStream 'st 'o
  | CloseStream 'st
  | CloseSession 's
  | CloseConn "'k tunnel_conn"

record ('w, 'k, 's, 'st, 'o, 'l) server_env =
  sv_tcp :: "('w, 'o, 'l) tcp_env"
  sv_smux_default :: smux_config
  sv_smux_server :: "'w \<Rightarrow> smux_config \<Rightarrow> 'k tunnel_conn wrapped \<Rightarrow> (go_error + 's) \<times> 'w"

text \<open>The goroutine of a stream; \<open>defer s.Close()\<close> runs after \<open>pipe\<close> returns.\<close>

definition handle_stream ::
  "('w, 'k, 's, 'st, 'o, 'l) server_env \<Rightarrow> string \<Rightarrow> 'w \<Rightarrow> 'st
     \<Rightarrow> ('k, 's, 'st, 'o) server_action list \<times> 'w" where
  "handle_stream env target w st =
     (case dialTCP (sv_tcp env) w target of
        (Inl e, w1) \<Rightarrow> ([CloseStream st], w1)
      | (Inr out, w1) \<Rightarrow> ([PipeStream st out, CloseStream st], w1))"

text \<open>The loop over \<open>AcceptStream\<close>; the flag says whether it has returned.\<close>

fun accept_streams ::
  "('w, 'k, 's, 'st, 'o, 'l) server_env \<Rightarrow> string \<Rightarrow> 'w \<Rightarrow> (go_error + 'st) list
     \<Rightarrow> ('k, 's, 'st, 'o) server_action list \<times> bool \<times> 'w" where
  "accept_streams env target w [] = ([], False, w)"
| "accept_streams env target w (Inl e # rs) = ([], True, w)"
| "accept_streams env target w (Inr st # rs) =
     (case handle_stream env target w st of
        (as, w1) \<Rightarrow> (case accept_streams env target w1 rs of (bs, ret, w2) \<Rightarrow> (as @ bs, ret, w2)))"

definition handleTLSServerSession ::
  "('w, 'k, 's, 'st, 'o, 'l) server_env \<Rightarrow> string \<Rightarrow> 'w \<Rightarrow> 'k tunnel_conn \<Rightarrow> (go_error + 'st) list
     \<Rightarrow> ('k, 's, 'st, 'o) server_action list \<times> bool \<times> 'w" where
  "handleTLSServerSession env target w conn accepts =
     (case sv_smux_server env w (smuxConfig (sv_smux_default env)) (WrapObfs conn DefaultObfsConfig) of
        (Inl e, w1) \<Rightarrow> ([CloseConn conn], True, w1)
      | (Inr s, w1) \<Rightarrow>
          (case accept_streams env target w1 accepts of
             (as, ret, w2) \<Rightarrow> (as @ (if ret then [CloseSession s, CloseConn conn] else []), ret, w2)))"

text \<open>The KCP handler has the same body, on a connection \<open>applyKCP\<close> has configured.\<close>

definition handleServerSession ::
  "('w, 'k, 's, 'st, 'o, 'l) server_env \<Rightarrow> string \<Rightarrow> 'w \<Rightarrow> 'k \<Rightarrow> (go_error + 'st) list
     \<Rightarrow> ('k, 's, 'st, 'o) server_action list \<times> bool \<times> 'w" where
  "handleServerSession env target w conn accepts =
     handleTLSServerSession env target w (OverKCP conn applyKCP) accepts"

subsection \<open>The accept loops\<close>

text \<open>
  \<open>Fatal\<close> is \<open>log.Fatalf\<close>; otherwise the connections for which a handler was started,
  and whether the function has returned.
\<close>

datatype 'c server_run = Fatal go_error | Serving "'c list" bool

fun accept_continue :: "(go_error + 'c) list \<Rightarrow> 'c list" where
  "accept_continue [] = []"
| "accept_continue (Inl e # rs) = accept_continue rs"
| "accept_continue (Inr c # rs) = c # accept_continue rs"

fun accept_return :: "(go_error + 'c) list \<Rightarrow> 'c list \<times> bool" where
  "accept_return [] = ([], False)"
| "accept_return (Inl e # rs) = ([], True)"
| "accept_return (Inr c # rs) = (case accept_return rs of (cs, ret) \<Rightarrow> (c # cs, ret))"

text \<open>\<open>kcp.ListenWithOptions\<close> and \<open>kcp.ServeConn\<close> are the arguments named after them.\<close>

definition runServer ::
  "('w \<Rightarrow> string \<Rightarrow> int \<Rightarrow> int \<Rightarrow> (go_error + 'l) \<times> 'w) \<Rightarrow> 'w \<Rightarrow> string \<Rightarrow> (go_error + 'k) list
     \<Rightarrow> 'k tunnel_conn server_run \<times> 'w" where
  "runServer ListenWithOptions w listen accepts =
     (case ListenWithOptions w listen kcpDataShards kcpParityShards of
        (Inl e, w1) \<Rightarrow> (Fatal e, w1)
      | (Inr lis, w1) \<Rightarrow> (Serving (map (\<lambda>k. OverKCP k applyKCP) (accept_continue accepts)) False, w1))"

definition runServerTLS ::
  "('w, 'key) crypto_env \<Rightarrow> ('w \<Rightarrow> string \<Rightarrow> 'key server_tls_config \<Rightarrow> (go_error + 'l) \<times> 'w)
     \<Rightarrow> 'w \<Rightarrow> string \<Rightarrow> string \<Rightarrow> (go_error + 'k tunnel_conn) list \<Rightarrow> 'k tunnel_conn server_run \<times> 'w" where
  "runServerTLS cenv tls_listen w listen sni accepts =
     (case NewTLSListener cenv tls_listen w listen sni of
        (Inl e, w1) \<Rightarrow> (Fatal e, w1)
      | (Inr ln, w1) \<Rightarrow> (Serving (accept_continue accepts) False, w1))"

definition runServerWS ::
  "('w, 'key) crypto_env \<Rightarrow> ('w, 'ln) listen_env \<Rightarrow> 'w \<Rightarrow> string \<Rightarrow> string \<Rightarrow> string \<Rightarrow> bool
     \<Rightarrow> (go_error + 'k wsConn) list \<Rightarrow> 'k tunnel_conn server_run \<times> 'w" where
  "runServerWS cenv lenv w listen path sni useTLS accepts =
     (case NewWSListener cenv lenv w listen path sni useTLS of
        (Inl e, w1) \<Rightarrow> (Fatal e, w1)
      | (Inr (ln :: 'k WSListener \<times> ('ln, 'key) http_server), w1) \<Rightarrow>
          (case accept_return accepts of (cs, ret) \<Rightarrow> (Serving (map OverWS cs) ret, w1)))"

text \<open>
  The raw server owns its packet connection: the deferred \<open>Close\<close> runs when the loop
  returns. \<open>log.Fatalf\<close> ends the process and runs no deferred call. The outer \<open>None\<close> is
  the panic \<open>NewRawPacketConn\<close> can be shown never to raise.
\<close>

definition runServerRaw ::
  "('w, 'h) pcap_env \<Rightarrow> ('w \<Rightarrow> int \<Rightarrow> int \<Rightarrow> 'h rawPacketConn \<Rightarrow> (go_error + 'l) \<times> 'w) \<Rightarrow> 'w
     \<Rightarrow> string \<Rightarrow> string \<Rightarrow> string \<Rightarrow> string \<Rightarrow> string \<Rightarrow> u16 \<Rightarrow> u16
     \<Rightarrow> (go_error + 'k) list \<Rightarrow> 'k tunnel_conn server_run option \<times> 'w" where
  "runServerRaw penv ServeConn w iface srcMAC gwMAC srcIP dstIP srcPort dstPort accepts =
     (case NewRawPacketConn penv w iface srcMAC gwMAC srcIP dstIP srcPort dstPort of
        (None, w1) \<Rightarrow> (None, w1)
      | (Some (Inl e), w1) \<Rightarrow> (Some (Fatal e), w1)
      | (Some (Inr pconn), w1) \<Rightarrow>
          (case ServeConn w1 kcpDataShards kcpParityShards pconn of
             (Inl e, w2) \<Rightarrow> (Some (Fatal e), w2)
           | (Inr lis, w2) \<Rightarrow>
               (case accept_return accepts of
                  (cs, ret) \<Rightarrow>
                    (Some (Serving (map (\<lambda>k. OverKCP k applyKCP) cs) ret),
                     if ret then snd (raw_Close penv pconn w2) else w2))))"

subsection \<open>Properties\<close>

lemma accept_streams_actions:
  assumes "accept_streams env target w rs = (as, ret, w')"
  shows "(\<forall>a \<in> set as. \<exists>st. a = CloseStream st \<or> (\<exists>out. a = PipeStream st out))
    \<and> [st. CloseStream st \<leftarrow> as] = accept_continue (takeWhile (\<lambda>r. \<exists>st. r = Inr st) rs)
    \<and> (ret \<longleftrightarrow> (\<exists>e. Inl e \<in> set rs))"
  using assms
proof (induction env target w rs arbitrary: as ret w' rule: accept_streams.induct)
  case (3 env target w st rs)
  obtain hs w1 where h: "handle_stream env target w st = (hs, w1)" by (metis prod.exhaust)
  obtain bs r2 w2 where a: "accept_streams env target w1 rs = (bs, r2, w2)" by (metis prod.exhaust)
  have "hs = [CloseStream st] \<or> (\<exists>out. hs = [PipeStream st out, CloseStream st])"
    using h by (auto simp: handle_stream_def split: prod.splits sum.splits)
  with 3 h a show ?case by auto
qed auto

lemma accept_streams_piped:
  assumes "accept_streams env target w rs = (as, ret, w')"
    and "\<And>w. \<exists>out w1. dialTCP (sv_tcp env) w target = (Inr out, w1)"
  shows "[st. PipeStream st out \<leftarrow> as] = [st. CloseStream st \<leftarrow> as]"
  using assms
proof (induction env target w rs arbitrary: as ret w' rule: accept_streams.induct)
  case (3 env target w st rs)
  obtain out w1 where d: "dialTCP (sv_tcp env) w target = (Inr out, w1)" using 3(3) by blast
  obtain bs r2 w2 where a: "accept_streams env target w1 rs = (bs, r2, w2)" by (metis prod.exhaust)
  have "handle_stream env target w st = ([PipeStream st out, CloseStream st], w1)"
    by (simp add: handle_stream_def d)
  with 3 a show ?case by auto
qed auto


definition demo_tcp :: "(nat, nat, nat) tcp_env" where
  "demo_tcp = \<lparr>te_dial = (\<lambda>w d n a. (Inr w, Suc w)), te_is_tcp = (\<lambda>c. True), te_set_nodelay = (\<lambda>w c b. w),
     te_listen = (\<lambda>w n a. (Inr 0, w))\<rparr>"

definition demo_srv :: "(nat, nat, nat, nat, nat, nat) server_env" where
  "demo_srv = \<lparr>sv_tcp = demo_tcp, sv_smux_default = ne_smux_default demo_net,
     sv_smux_server = (\<lambda>w cfg c. (Inr 7, w))\<rparr>"

lemma demo_server_run:
  "handleTLSServerSession demo_srv ''t:1'' 0 (OverKCP 3 applyKCP) [Inr 1, Inr 2, Inl EOF] =
     ([PipeStream 1 0, CloseStream 1, PipeStream 2 1, CloseStream 2, CloseSession 7, CloseConn (OverKCP 3 applyKCP)],
      True, 2)"
  by (simp add: handleTLSServerSession_def demo_srv_def handle_stream_def dialTCP_def demo_tcp_def)


text \<open>
  The accept loops. \<open>runServer\<close> and \<open>runServerTLS\<close> start a handler for every
  connection accepted, in order, across accept errors, and never return. \<open>runServerWS\<close>
  and \<open>runServerRaw\<close> do so up to the first accept error and then return; the raw server
  has then released its capture handle, and holds it as long as it serves.
\<close>

lemma accept_return_eq:
  "accept_return rs = (accept_continue (takeWhile (\<lambda>r. \<exists>c. r = Inr c) rs), \<exists>e. Inl e \<in> set rs)"
  by (induction rs rule: accept_return.induct) auto

theorem server_accept_loops:
  assumes "pcap_ok penv live"
  shows "(runServer lo w listen accepts = (Serving cs ret, w1) \<longrightarrow>
         cs = map (\<lambda>k. OverKCP k applyKCP) (accept_continue accepts) \<and> \<not> ret)
    \<and> (runServerTLS cenv tlisten w listen sni taccepts = (Serving cs ret, w1) \<longrightarrow>
         cs = accept_continue taccepts \<and> \<not> ret)
    \<and> (runServerWS cenv lenv w listen path sni useTLS waccepts = (Serving cs ret, w1) \<longrightarrow>
         cs = map OverWS (accept_continue (takeWhile (\<lambda>r. \<exists>c. r = Inr c) waccepts))
         \<and> (ret \<longleftrightarrow> (\<exists>e. Inl e \<in> set waccepts)))
    \<and> (runServerRaw penv sc w iface srcMAC gwMAC srcIP dstIP srcPort dstPort accepts = (Some (Serving cs ret), w1)
         \<and> (\<forall>w d p c. live (snd (sc w d p c)) = live w) \<longrightarrow>
         cs = map (\<lambda>k. OverKCP k applyKCP) (accept_continue (takeWhile (\<lambda>r. \<exists>c. r = Inr c) accepts))
         \<and> (ret \<longleftrightarrow> (\<exists>e. Inl e \<in> set accepts))
         \<and> (if ret then live w1 = live w else \<exists>h. h \<notin> live w \<and> live w1 = insert h (live w)))"
proof (intro conjI)
  show "runServer lo w listen accepts = (Serving cs ret, w1) \<longrightarrow>
      cs = map (\<lambda>k. OverKCP k applyKCP) (accept_continue accepts) \<and> \<not> ret"
    by (auto simp: runServer_def split: prod.splits sum.splits)
  show "runServerTLS cenv tlisten w listen sni taccepts = (Serving cs ret, w1) \<longrightarrow>
      cs = accept_continue taccepts \<and> \<not> ret"
    by (auto simp: runServerTLS_def split: prod.splits sum.splits)
  show "runServerWS cenv lenv w listen path sni useTLS waccepts = (Serving cs ret, w1) \<longrightarrow>
      cs = map OverWS (accept_continue (takeWhile (\<lambda>r. \<exists>c. r = Inr c) waccepts))
      \<and> (ret \<longleftrightarrow> (\<exists>e. Inl e \<in> set waccepts))"
    by (auto simp: runServerWS_def accept_return_eq split: prod.splits sum.splits)
next
  obtain opn w0 where o: "NewRawPacketConn penv w iface srcMAC gwMAC srcIP dstIP srcPort dstPort = (opn, w0)"
    by (metis prod.exhaust)
  note live0 = raw_open_cases [OF assms o]
  show "runServerRaw penv sc w iface srcMAC gwMAC srcIP dstIP srcPort dstPort accepts = (Some (Serving cs ret), w1)
         \<and> (\<forall>w d p c. live (snd (sc w d p c)) = live w) \<longrightarrow>
         cs = map (\<lambda>k. OverKCP k applyKCP) (accept_continue (takeWhile (\<lambda>r. \<exists>c. r = Inr c) accepts))
         \<and> (ret \<longleftrightarrow> (\<exists>e. Inl e \<in> set accepts))
         \<and> (if ret then live w1 = live w else \<exists>h. h \<notin> live w \<and> live w1 = insert h (live w))"
  proof (intro impI, elim conjE)
    assume run: "runServerRaw penv sc w iface srcMAC gwMAC srcIP dstIP srcPort dstPort accepts = (Some (Serving cs ret), w1)"
      and keep: "\<forall>w d p c. live (snd (sc w d p c)) = live w"
    from run o obtain pconn where p: "opn = Some (Inr pconn)"
      by (auto simp: runServerRaw_def split: option.splits sum.splits)
    obtain l w2 where l: "sc w0 kcpDataShards kcpParityShards pconn = (l, w2)" by (metis prod.exhaust)
    have "live (snd (sc w0 kcpDataShards kcpParityShards pconn)) = live w0" using keep by blast
    with l have w2: "live w2 = live w0" by simp
    from live0 p have h: "rp_handle pconn \<notin> live w" "live w0 = insert (rp_handle pconn) (live w)" "\<not> closeOnce pconn"
      by (simp_all add: raw_fresh_def)
    from run o p l have
      cs: "cs = map (\<lambda>k. OverKCP k applyKCP) (accept_continue (takeWhile (\<lambda>r. \<exists>c. r = Inr c) accepts))"
      and ret: "ret \<longleftrightarrow> (\<exists>e. Inl e \<in> set accepts)"
      and w1: "w1 = (if ret then snd (raw_Close penv pconn w2) else w2)"
      by (cases l; auto simp: runServerRaw_def accept_return_eq)+
    have "live (snd (raw_Close penv pconn w2)) = live w2 - {rp_handle pconn}"
      using h(3) pcap_ok_close [OF assms] by (simp add: raw_Close_def)
    with cs ret w1 w2 h show "cs = map (\<lambda>k. OverKCP k applyKCP) (accept_continue (takeWhile (\<lambda>r. \<exists>c. r = Inr c) accepts))
         \<and> (ret \<longleftrightarrow> (\<exists>e. Inl e \<in> set accepts))
         \<and> (if ret then live w1 = live w else \<exists>h. h \<notin> live w \<and> live w1 = insert h (live w))"
      by auto
  qed
qed

lemma demo_raw_server:
  "runServerRaw demo_pcap (\<lambda>w d p c. (Inr (), w)) [] ''eth0'' ''m'' ''m'' ''10.0.0.1'' ''10.0.0.1'' 4000 5000
     [Inr 8, Inl EOF, Inr (9 :: nat)] = (Some (Serving [OverKCP 8 applyKCP] True), [])"
  by (simp add: runServerRaw_def demo_raw_open) (simp add: raw_Close_def demo_pcap_def demo_raw_def)

theorem server_accept_loops_witness:
  "[OverKCP 8 applyKCP] = map (\<lambda>k. OverKCP k applyKCP)
     (accept_continue (takeWhile (\<lambda>r. \<exists>c. r = Inr c) [Inr 8, Inl EOF, Inr (9 :: nat)]))"
  using server_accept_loops [OF demo_pcap_ok] demo_raw_server by fastforce

end
