(* ===== verification/Client_Sessions.thy ===== *)
theory Client_Sessions
  imports Multi_Path Server_Sessions
begin

text \<open>
  The session every client engine keeps: the closures \<open>getSession\<close> of \<open>runClient\<close>
  (src/t2tunnel/engine.go), \<open>runClientTLS\<close> (engine_tls.go), \<open>runClientWS\<close>
  (engine_ws.go) and \<open>runClientRaw\<close> (engine_raw.go), the goroutine that serves a local
  connection, and the interface they share with the multi-path client. The variable
  \<open>session\<close> the closures capture is the record \<open>client_state\<close>.
\<close>

record 's client_state =
  cl_session :: "'s option"

subsection \<open>The four diallers\<close>

text \<open>The part the UDP, TLS and WebSocket closures have in common.\<close>

definition cached_session ::
  "('w, 'k, 's, 'st) net_env \<Rightarrow> ('w \<Rightarrow> (go_error + 'k tunnel_conn) \<times> 'w) \<Rightarrow> 's client_state \<Rightarrow> 'w
     \<Rightarrow> (go_error + 's) \<times> 's client_state \<times> 'w" where
  "cached_session env dial cl w =
     (let connect =
        (case dial w of
           (Inl e, w1) \<Rightarrow> (Inl e, cl, w1)
         | (Inr c, w1) \<Rightarrow>
             (case start_session env w1 c of
                (Inl e, w2) \<Rightarrow> (Inl e, cl, w2)
              | (Inr s, w2) \<Rightarrow> (Inr s, cl\<lparr>cl_session := Some s\<rparr>, w2)))
      in case cl_session cl of
           Some s \<Rightarrow> if \<not> ne_session_closed env w s then (Inr s, cl, w) else connect
         | None \<Rightarrow> connect)"

text \<open>\<open>kcp.DialWithOptions\<close> followed by \<open>applyKCP\<close>.\<close>

definition udp_dial ::
  "('w, 'k, 's, 'st) net_env \<Rightarrow> string \<Rightarrow> 'w \<Rightarrow> (go_error + 'k tunnel_conn) \<times> 'w" where
  "udp_dial env remote w =
     (case ne_kcp_dial env w remote kcpDataShards kcpParityShards of
        (Inl e, w1) \<Rightarrow> (Inl e, w1)
      | (Inr k, w1) \<Rightarrow> (Inr (OverKCP k applyKCP), w1))"

definition udp_getSession ::
  "('w, 'k, 's, 'st) net_env \<Rightarrow> string \<Rightarrow> 's client_state \<Rightarrow> 'w
     \<Rightarrow> (go_error + 's) \<times> 's client_state \<times> 'w" where
  "udp_getSession env remote = cached_session env (udp_dial env remote)"

definition tls_getSession ::
  "('w, 'k, 's, 'st) net_env \<Rightarrow> string \<Rightarrow> string \<Rightarrow> 's client_state \<Rightarrow> 'w
     \<Rightarrow> (go_error + 's) \<times> 's client_state \<times> 'w" where
  "tls_getSession env remote sni = cached_session env (\<lambda>w. env_dialTLS env w remote sni)"

definition ws_getSession ::
  "('w, 'k, 's, 'st) net_env \<Rightarrow> string \<Rightarrow> string \<Rightarrow> string \<Rightarrow> string \<Rightarrow> bool \<Rightarrow> 's client_state \<Rightarrow> 'w
     \<Rightarrow> (go_error + 's) \<times> 's client_state \<times> 'w" where
  "ws_getSession env remote host path sni useTLS =
     cached_session env (\<lambda>w. env_dialWS env w remote host path sni useTLS)"

text \<open>The goroutine of a local connection, in all four engines.\<close>

definition serve_local ::
  "('w, 'k, 's, 'st) net_env \<Rightarrow> ('c \<Rightarrow> 'w \<Rightarrow> (go_error + 's) \<times> 'c \<times> 'w) \<Rightarrow> 'c \<Rightarrow> 'w
     \<Rightarrow> 'st conn_outcome \<times> 'c \<times> 'w" where
  "serve_local env getSession cl w =
     (case getSession cl w of
        (Inl e, cl1, w1) \<Rightarrow> (ClientClosed, cl1, w1)
      | (Inr s, cl1, w1) \<Rightarrow>
          (case ne_open_stream env w1 s of
             (Inl e, w2) \<Rightarrow> (ClientClosed, cl1, w2)
           | (Inr st, w2) \<Rightarrow> (Piped st, cl1, w2)))"

text \<open>
  The body of the engines: listen, and serve every connection accepted, across accept
  errors. The goroutines are run one after the other; how they interleave is studied
  with the mutex in theory Raw_Client.
\<close>

fun serve_all ::
  "('c \<Rightarrow> 'w \<Rightarrow> 'out \<times> 'c \<times> 'w) \<Rightarrow> 'conn list \<Rightarrow> 'c \<Rightarrow> 'w \<Rightarrow> ('conn \<times> 'out) list \<times> 'c \<times> 'w" where
  "serve_all serve [] c w = ([], c, w)"
| "serve_all serve (k # ks) c w =
     (case serve c w of
        (r, c1, w1) \<Rightarrow> (case serve_all serve ks c1 w1 of (rs, c2, w2) \<Rightarrow> ((k, r) # rs, c2, w2)))"

definition run_client ::
  "('w, 'o, 'l) tcp_env \<Rightarrow> ('c \<Rightarrow> 'w \<Rightarrow> 'out \<times> 'c \<times> 'w) \<Rightarrow> 'c \<Rightarrow> 'w \<Rightarrow> string \<Rightarrow> (go_error + 'conn) list
     \<Rightarrow> ('conn \<times> 'out) server_run \<times> 'c \<times> 'w" where
  "run_client tcp serve c w listen accepts =
     (case listenTCP tcp w listen of
        (Inl e, w1) \<Rightarrow> (Fatal e, c, w1)
      | (Inr l, w1) \<Rightarrow>
          (case serve_all serve (accept_continue accepts) c w1 of (outs, c2, w2) \<Rightarrow> (Serving outs False, c2, w2)))"

definition runClient ::
  "('w, 'k, 's, 'st) net_env \<Rightarrow> ('w, 'o, 'l) tcp_env \<Rightarrow> 'w \<Rightarrow> string \<Rightarrow> string \<Rightarrow> (go_error + 'conn) list
     \<Rightarrow> ('conn \<times> 'st conn_outcome) server_run \<times> 's client_state \<times> 'w" where
  "runClient env tcp w listen remote accepts =
     run_client tcp (serve_local env (udp_getSession env remote)) \<lparr>cl_session = None\<rparr> w listen accepts"

definition runClientTLS ::
  "('w, 'k, 's, 'st) net_env \<Rightarrow> ('w, 'o, 'l) tcp_env \<Rightarrow> 'w \<Rightarrow> string \<Rightarrow> string \<Rightarrow> string \<Rightarrow> (go_error + 'conn) list
     \<Rightarrow> ('conn \<times> 'st conn_outcome) server_run \<times> 's client_state \<times> 'w" where
  "runClientTLS env tcp w listen remote sni accepts =
     run_client tcp (serve_local env (tls_getSession env remote sni)) \<lparr>cl_session = None\<rparr> w listen accepts"

definition runClientWS ::
  "('w, 'k, 's, 'st) net_env \<Rightarrow> ('w, 'o, 'l) tcp_env \<Rightarrow> 'w \<Rightarrow> string \<Rightarrow> string \<Rightarrow> string \<Rightarrow> string \<Rightarrow> string \<Rightarrow> bool
     \<Rightarrow> (go_error + 'conn) list \<Rightarrow> ('conn \<times> 'st conn_outcome) server_run \<times> 's client_state \<times> 'w" where
  "runClientWS env tcp w listen remote host path sni useTLS accepts =
     run_client tcp (serve_local env (ws_getSession env remote host path sni useTLS)) \<lparr>cl_session = None\<rparr> w listen accepts"

definition mp_Run ::
  "('w, 'k, 's, 'st) net_env \<Rightarrow> ('w, 'o, 'l) tcp_env \<Rightarrow> 'w \<Rightarrow> 's MultiPathClient \<Rightarrow> (go_error + 'conn) list
     \<Rightarrow> ('conn \<times> 'st conn_outcome) server_run \<times> 's MultiPathClient \<times> 'w" where
  "mp_Run env tcp w m accepts = run_client tcp (mp_handleConn env) m w (mp_listen m) accepts"

text \<open>Several calls of \<open>getSession\<close>, one after the other.\<close>

fun serve_many ::
  "('c \<Rightarrow> 'w \<Rightarrow> (go_error + 's) \<times> 'c \<times> 'w) \<Rightarrow> nat \<Rightarrow> 'c \<Rightarrow> 'w \<Rightarrow> (go_error + 's) list \<times> 'c \<times> 'w" where
  "serve_many get 0 c w = ([], c, w)"
| "serve_many get (Suc n) c w =
     (case get c w of (r, c1, w1) \<Rightarrow> (case serve_many get n c1 w1 of (rs, c2, w2) \<Rightarrow> (r # rs, c2, w2)))"

subsection \<open>The interface\<close>

text \<open>
  What a connection handler may rely on: a live session is handed out again without
  touching anything; a success records the session it returns; and, provided the
  environment keeps its resource discipline (\<open>disciplined\<close>), a failure opens nothing
  and a success without a live session opens exactly one resource.
\<close>

locale session_provider =
  fixes get :: "'c \<Rightarrow> 'w \<Rightarrow> (go_error + 's) \<times> 'c \<times> 'w"
    and cur :: "'c \<Rightarrow> 's option"
    and closed :: "'w \<Rightarrow> 's \<Rightarrow> bool"
    and live :: "'w \<Rightarrow> 'k set"
    and disciplined :: bool
  assumes reuse: "cur c = Some s \<Longrightarrow> \<not> closed w s \<Longrightarrow> get c w = (Inr s, c, w)"
    and recorded: "get c w = (Inr s, c', w') \<Longrightarrow> cur c' = Some s"
    and failed: "disciplined \<Longrightarrow> get c w = (Inl e, c', w') \<Longrightarrow> cur c' = cur c \<and> live w' = live w"
    and dialled: "disciplined \<Longrightarrow> (\<forall>s. cur c = Some s \<longrightarrow> closed w s) \<Longrightarrow> get c w = (Inr s, c', w') \<Longrightarrow>
      \<exists>k. k \<notin> live w \<and> live w' = insert k (live w)"
begin

lemma serve_reuses:
  "cur c = Some s \<Longrightarrow> \<not> closed w s \<Longrightarrow> serve_many get n c w = (replicate n (Inr s), c, w)"
  by (induction n) (simp_all add: reuse)

text \<open>All connections share the one session the first of them opened.\<close>

lemma serve_shares:
  assumes "get c w = (Inr s, c1, w1)" and "\<not> closed w1 s"
  shows "serve_many get (Suc n) c w = (replicate (Suc n) (Inr s), c1, w1)"
  using assms serve_reuses [OF recorded [OF assms(1)] assms(2), of n] by simp

text \<open>Whatever happens, one call adds at most one resource.\<close>

lemma get_bounded:
  assumes disciplined and "get c w = (r, c', w')"
  shows "live w' = live w \<or> (\<exists>k. k \<notin> live w \<and> live w' = insert k (live w))"
proof (cases r)
  case (Inl e)
  with failed [OF assms(1)] assms(2) show ?thesis by blast
next
  case (Inr s)
  show ?thesis
  proof (cases "\<forall>s. cur c = Some s \<longrightarrow> closed w s")
    case True
    with dialled [OF assms(1)] assms(2) Inr show ?thesis by blast
  next
    case False
    with reuse assms(2) Inr show ?thesis by fastforce
  qed
qed

end

lemma cached_session_live:
  assumes "cl_session cl = Some s" and "\<not> ne_session_closed env w s"
  shows "cached_session env dial cl w = (Inr s, cl, w)"
  using assms by (simp add: cached_session_def)

lemma cached_session_connects:
  assumes "\<forall>s. cl_session cl = Some s \<longrightarrow> ne_session_closed env w s"
  shows "cached_session env dial cl w =
    (case dial w of
       (Inl e, w1) \<Rightarrow> (Inl e, cl, w1)
     | (Inr c, w1) \<Rightarrow>
         (case start_session env w1 c of
            (Inl e, w2) \<Rightarrow> (Inl e, cl, w2)
          | (Inr s, w2) \<Rightarrow> (Inr s, cl\<lparr>cl_session := Some s\<rparr>, w2)))"
  using assms by (auto simp: cached_session_def Let_def split: option.splits)

lemma cached_session_cases:
  assumes "cached_session env dial cl w = (r, cl', w')"
  obtains (hit) s where "cl_session cl = Some s" "\<not> ne_session_closed env w s" "r = Inr s" "cl' = cl" "w' = w"
  | (no_conn) e where "\<forall>s. cl_session cl = Some s \<longrightarrow> ne_session_closed env w s"
      "dial w = (Inl e, w')" "r = Inl e" "cl' = cl"
  | (no_mux) c w1 e where "\<forall>s. cl_session cl = Some s \<longrightarrow> ne_session_closed env w s"
      "dial w = (Inr c, w1)" "start_session env w1 c = (Inl e, w')" "r = Inl e" "cl' = cl"
  | (fresh) c w1 s where "\<forall>s. cl_session cl = Some s \<longrightarrow> ne_session_closed env w s"
      "dial w = (Inr c, w1)" "start_session env w1 c = (Inr s, w')" "r = Inr s" "cl' = cl\<lparr>cl_session := Some s\<rparr>"
proof (cases "\<forall>s. cl_session cl = Some s \<longrightarrow> ne_session_closed env w s")
  case False
  then obtain s where "cl_session cl = Some s" "\<not> ne_session_closed env w s" by blast
  with cached_session_live [OF this, of dial] assms hit show thesis by simp
next
  case True
  note eq = cached_session_connects [OF True, of dial]
  obtain d w1 where d: "dial w = (d, w1)" by (metis prod.exhaust)
  show thesis
  proof (cases d)
    case (Inl e)
    with eq d assms no_conn True show thesis by simp
  next
    case (Inr c)
    obtain m w2 where m: "start_session env w1 c = (m, w2)" by (metis prod.exhaust)
    with Inr eq d assms no_mux fresh True show thesis by (cases m) auto
  qed
qed

lemma cached_session_provider:
  fixes env :: "('w, 'k, 's, 'st) net_env"
  assumes "net_env_ok env live \<Longrightarrow> (\<And>w. opens live w conn_resource (dial w))"
  shows "session_provider (cached_session env dial) cl_session (ne_session_closed env) live (net_env_ok env live)"
proof
  fix c :: "'s client_state" and s w
  assume "cl_session c = Some s" "\<not> ne_session_closed env w s"
  then show "cached_session env dial c w = (Inr s, c, w)" by (rule cached_session_live)
next
  fix c w s c' w'
  assume "cached_session env dial c w = (Inr s, c', w')"
  then show "cl_session c' = Some s" by (cases rule: cached_session_cases) auto
next
  fix c w e c' w'
  assume ok: "net_env_ok env live" and "cached_session env dial c w = (Inl e, c', w')"
  then show "cl_session c' = cl_session c \<and> live w' = live w"
  proof (cases rule: cached_session_cases [OF \<open>cached_session env dial c w = (Inl e, c', w')\<close>])
    case (2 e')
    with assms [OF ok, of w] show ?thesis by simp
  next
    case (3 cn w1 e')
    with assms [OF ok, of w] dial_and_start_live [OF ok _ 3(3)] show ?thesis by simp
  qed simp_all
next
  fix c w s c' w'
  assume ok: "net_env_ok env live" and none: "\<forall>s. cl_session c = Some s \<longrightarrow> ne_session_closed env w s"
    and g: "cached_session env dial c w = (Inr s, c', w')"
  from g show "\<exists>k. k \<notin> live w \<and> live w' = insert k (live w)"
  proof (cases rule: cached_session_cases)
    case (hit s')
    with none show ?thesis by blast
  next
    case (fresh cn w1 s')
    with assms [OF ok, of w] dial_and_start_live [OF ok _ fresh(3)] show ?thesis by auto
  qed simp_all
qed

lemma udp_dial_opens: "net_env_ok env live \<Longrightarrow> opens live w conn_resource (udp_dial env remote w)"
proof -
  assume "net_env_ok env live"
  then have o: "opens live w id (ne_kcp_dial env w remote kcpDataShards kcpParityShards)"
    by (simp add: net_env_ok_def)
  obtain d w1 where "ne_kcp_dial env w remote kcpDataShards kcpParityShards = (d, w1)" by (metis prod.exhaust)
  with o show ?thesis by (cases d) (simp_all add: udp_dial_def)
qed

interpretation udp_client: session_provider "udp_getSession env remote" cl_session "ne_session_closed env" live
    "net_env_ok env live"
  unfolding udp_getSession_def by (rule cached_session_provider) (rule udp_dial_opens)

interpretation tls_client: session_provider "tls_getSession env remote sni" cl_session "ne_session_closed env" live
    "net_env_ok env live"
  unfolding tls_getSession_def by (rule cached_session_provider) (rule env_dialTLS_opens)

interpretation ws_client: session_provider "ws_getSession env remote host path sni useTLS" cl_session
    "ne_session_closed env" live "net_env_ok env live"
  unfolding ws_getSession_def by (rule cached_session_provider) (rule env_dialWS_opens)

text \<open>The multi-path client offers the same interface, the server it chose left aside.\<close>

definition mp_get ::
  "('w, 'k, 's, 'st) net_env \<Rightarrow> 's MultiPathClient \<Rightarrow> 'w \<Rightarrow> (go_error + 's) \<times> 's MultiPathClient \<times> 'w" where
  "mp_get env m w =
     (case mp_getSession env m w of
        (Inl e, m', w') \<Rightarrow> (Inl e, m', w')
      | (Inr (s, srv), m', w') \<Rightarrow> (Inr s, m', w'))"

lemma mp_get_cases:
  assumes "mp_get env m w = (r, m', w')"
  obtains (err) e where "r = Inl e" "mp_getSession env m w = (Inl e, m', w')"
  | (ok) s srv where "r = Inr s" "mp_getSession env m w = (Inr (s, srv), m', w')"
proof -
  obtain r1 m1 w1 where g: "mp_getSession env m w = (r1, m1, w1)" by (metis prod.exhaust)
  with assms err ok show thesis by (cases r1) (auto simp: mp_get_def)
qed

lemma mp_getSession_session:
  assumes "mp_getSession env m w = (r, m', w')"
  shows "mp_session m' = (case r of Inl _ \<Rightarrow> mp_session m | Inr (s, _) \<Rightarrow> Some s)"
proof (cases "no_live_session env m w")
  case True
  with assms obtain r1 where l: "mp_loop env (mp_current m) (length (mp_servers m)) 0 m w = (r1, m', w')"
    and r: "r = (case r1 of Inl e \<Rightarrow> Inl e | Inr (s, idx) \<Rightarrow> Inr (s, Some idx))"
    by (rule mp_getSession_elim)
  from mp_loop_post [OF _ _ l] r show ?thesis by (cases r1) (auto simp: mp_loop_post_def)
next
  case False
  with mp_getSession_cached [OF False] assms show ?thesis by auto
qed

lemma mp_session_provider:
  fixes env :: "('w, 'k, 's, 'st) net_env"
  shows "session_provider (mp_get env) mp_session (ne_session_closed env) live (net_env_ok env live)"
proof
  fix m :: "'s MultiPathClient" and s w
  assume "mp_session m = Some s" "\<not> ne_session_closed env w s"
  then show "mp_get env m w = (Inr s, m, w)" by (simp add: mp_get_def mp_getSession_def)
next
  fix m w s m' w'
  assume "mp_get env m w = (Inr s, m', w')"
  then show "mp_session m' = Some s"
    by (cases rule: mp_get_cases) (auto dest: mp_getSession_session)
next
  fix m w e m' w'
  assume ok: "net_env_ok env live" and mg: "mp_get env m w = (Inl e, m', w')"
  from mg have g: "mp_getSession env m w = (Inl e, m', w')" by (cases rule: mp_get_cases) auto
  then have "no_live_session env m w" using mp_getSession_cached [of env m w] by auto
  from mp_getSession_live [OF ok this g] mp_getSession_session [OF g]
  show "mp_session m' = mp_session m \<and> live w' = live w" by simp
next
  fix m w s m' w'
  assume ok: "net_env_ok env live" and none: "\<forall>s. mp_session m = Some s \<longrightarrow> ne_session_closed env w s"
    and "mp_get env m w = (Inr s, m', w')"
  then obtain srv where g: "mp_getSession env m w = (Inr (s, srv), m', w')" by (auto elim: mp_get_cases)
  from mp_getSession_live [OF ok _ g] none show "\<exists>k. k \<notin> live w \<and> live w' = insert k (live w)"
    by (simp add: no_live_session_def)
qed

interpretation mp_client: session_provider "mp_get env" mp_session "ne_session_closed env" live "net_env_ok env live"
  by (rule mp_session_provider)

subsection \<open>Properties\<close>

text \<open>
  (C26) One session for all local connections: once a client has a session, every further
  connection gets that session, without dialling, as long as it stays open; the same
  holds of the UDP, TLS, WebSocket and multi-path clients.
\<close>

theorem client_session_shared:
  assumes "\<not> ne_session_closed env w1 s"
  shows "(udp_getSession env remote cl w = (Inr s, cl1, w1) \<longrightarrow>
           serve_many (udp_getSession env remote) (Suc n) cl w = (replicate (Suc n) (Inr s), cl1, w1))
    \<and> (tls_getSession env remote sni cl w = (Inr s, cl1, w1) \<longrightarrow>
           serve_many (tls_getSession env remote sni) (Suc n) cl w = (replicate (Suc n) (Inr s), cl1, w1))
    \<and> (ws_getSession env remote host path sni useTLS cl w = (Inr s, cl1, w1) \<longrightarrow>
           serve_many (ws_getSession env remote host path sni useTLS) (Suc n) cl w = (replicate (Suc n) (Inr s), cl1, w1))
    \<and> (mp_get env m w = (Inr s, m1, w1) \<longrightarrow>
           serve_many (mp_get env) (Suc n) m w = (replicate (Suc n) (Inr s), m1, w1))"
  by (intro conjI impI)
    (erule udp_client.serve_shares [OF _ assms] tls_client.serve_shares [OF _ assms]
      ws_client.serve_shares [OF _ assms] mp_client.serve_shares [OF _ assms])+

definition demo_cl :: "nat client_state" where
  "demo_cl = \<lparr>cl_session = None\<rparr>"

lemma demo_tls_get:
  "tls_getSession demo_net ''b:443'' ''x'' demo_cl [] = (Inr 1, \<lparr>cl_session = Some 1\<rparr>, [1])"
  by (simp add: tls_getSession_def cached_session_def demo_cl_def demo_tls demo_session)

theorem client_session_shared_witness:
  "serve_many (tls_getSession demo_net ''b:443'' ''x'') 3 demo_cl [] = (replicate 3 (Inr 1), \<lparr>cl_session = Some 1\<rparr>, [1])"
proof -
  have "\<not> ne_session_closed demo_net [1] 1" by (simp add: demo_net_def)
  from client_session_shared [OF this, of _ _ _ _ 2] demo_tls_get show ?thesis by (simp add: numeral_3_eq_3)
qed

text \<open>
  (C6) No client leaks connections: a failing \<open>getSession\<close> leaves the set of open
  resources as it was and keeps the recorded session; a call adds at most one
  resource, and only when there was no live session.
\<close>

theorem client_no_leak:
  assumes "net_env_ok env live"
    and "get \<in> {udp_getSession env remote, tls_getSession env remote sni,
      ws_getSession env remote host path sni useTLS}"
    and "get cl w = (r, cl', w')"
  shows "(case r of Inl _ \<Rightarrow> live w' = live w \<and> cl_session cl' = cl_session cl
        | Inr s \<Rightarrow> cl_session cl' = Some s)
    \<and> (live w' = live w \<or>
        ((\<forall>s. cl_session cl = Some s \<longrightarrow> ne_session_closed env w s)
         \<and> (\<exists>k. k \<notin> live w \<and> live w' = insert k (live w))))"
proof -
  have P: "session_provider get cl_session (ne_session_closed env) live (net_env_ok env live)"
    using assms(2) udp_client.session_provider_axioms tls_client.session_provider_axioms
      ws_client.session_provider_axioms by blast
  show ?thesis
  proof (cases "\<forall>s. cl_session cl = Some s \<longrightarrow> ne_session_closed env w s")
    case True
    with session_provider.failed [OF P assms(1)] session_provider.dialled [OF P assms(1)]
      session_provider.recorded [OF P] assms(3) show ?thesis by (cases r) auto
  next
    case False
    then obtain s where "cl_session cl = Some s" "\<not> ne_session_closed env w s" by blast
    with session_provider.reuse [OF P this] assms(3) show ?thesis by auto
  qed
qed

theorem client_no_leak_witness:
  "cl_session \<lparr>cl_session = Some (1 :: nat)\<rparr> = Some 1
   \<and> (\<exists>k. k \<notin> set [] \<and> set [1] = insert k (set [] :: nat set))"
  using client_no_leak [OF demo_net_ok, of "tls_getSession demo_net ''b:443'' ''x''" undefined "''b:443''" "''x''",
      OF _ demo_tls_get] by auto

subsection \<open>The client loops\<close>

lemma mp_getSession_server:
  fixes s :: 's
  assumes "mp_getSession env m w = (Inr (s, srv), m', w')" and "mp_inv m"
  shows "srv \<noteq> None"
proof (cases "no_live_session env m w")
  case True
  from mp_getSession_elim [OF assms(1) True] obtain r :: "go_error + 's \<times> nat"
    where "Inr (s, srv) = (case r of Inl e \<Rightarrow> Inl e | Inr (s, idx) \<Rightarrow> Inr (s, Some idx))" by blast
  then show ?thesis by (auto split: sum.splits)
next
  case False
  with mp_getSession_cached [OF False] assms show ?thesis by (auto simp: mp_inv_def)
qed

lemma mp_handleConn_inv:
  assumes "mp_handleConn env m w = (out, m', w')" and "mp_inv m"
  shows "out \<noteq> Panicked \<and> mp_inv m'"
proof -
  obtain r m1 w1 where g: "mp_getSession env m w = (r, m1, w1)" by (metis prod.exhaust)
  from mp_getSession_inv [OF g assms(2)] have inv1: "mp_inv m1" by simp
  show ?thesis
  proof (cases r)
    case (Inl e)
    with g assms(1) inv1 show ?thesis by (auto simp: mp_handleConn_def)
  next
    case (Inr p)
    obtain s srv where p: "p = (s, srv)" by (cases p)
    obtain q w2 where o: "ne_open_stream env w1 s = (q, w2)" by (metis prod.exhaust)
    have "srv \<noteq> None" using mp_getSession_server [OF g [unfolded Inr p] assms(2)] .
    then obtain idx where idx: "srv = Some idx" by blast
    obtain m2 w3 where f: "mp_markFailed env idx m1 w2 = (m2, w3)" by (metis prod.exhaust)
    with mp_markFailed_inv [OF f inv1] g Inr p o idx assms(1) inv1 show ?thesis
      by (cases q) (auto simp: mp_handleConn_def)
  qed
qed

text \<open>The invariant of an engine's state, and that no connection makes the engine panic.\<close>

definition never_panics :: "('c \<Rightarrow> 'w \<Rightarrow> 'st conn_outcome \<times> 'c \<times> 'w) \<Rightarrow> ('c \<Rightarrow> bool) \<Rightarrow> bool" where
  "never_panics serve I \<longleftrightarrow>
     (\<forall>c w out c' w'. serve c w = (out, c', w') \<longrightarrow> I c \<longrightarrow> out \<noteq> Panicked \<and> I c')"

definition serves_all :: "('w, 'o, 'l) tcp_env \<Rightarrow> 'w \<Rightarrow> string \<Rightarrow> (go_error + 'conn) list
    \<Rightarrow> ('conn \<times> 'st conn_outcome) server_run \<Rightarrow> bool" where
  "serves_all tcp w listen accepts run \<longleftrightarrow>
     (case run of
        Fatal e \<Rightarrow> \<exists>w1. listenTCP tcp w listen = (Inl e, w1)
      | Serving outs ret \<Rightarrow> \<not> ret \<and> map fst outs = accept_continue accepts \<and> Panicked \<notin> set (map snd outs))"

lemma serve_all_inv:
  assumes "never_panics serve I"
  shows "serve_all serve ks c w = (outs, c', w') \<Longrightarrow> I c \<Longrightarrow>
    map fst outs = ks \<and> Panicked \<notin> set (map snd outs) \<and> I c'"
proof (induction ks arbitrary: c w outs)
  case (Cons k ks)
  obtain r c1 w1 where s: "serve c w = (r, c1, w1)" by (metis prod.exhaust)
  obtain rs c2 w2 where t: "serve_all serve ks c1 w1 = (rs, c2, w2)" by (metis prod.exhaust)
  have "r \<noteq> Panicked" "I c1" using assms s Cons.prems(2) unfolding never_panics_def by blast+
  moreover from t Cons.prems(1) s have eq: "outs = (k, r) # rs" "c2 = c'" "w2 = w'" by auto
  ultimately show ?case using Cons.IH [of c1 w1 rs] t by auto
qed auto

lemma run_client_serves:
  assumes "never_panics serve I" and "I c"
  shows "serves_all tcp w listen accepts (fst (run_client tcp serve c w listen accepts))
    \<and> I (fst (snd (run_client tcp serve c w listen accepts)))"
proof -
  obtain r w1 where l: "listenTCP tcp w listen = (r, w1)" by (metis prod.exhaust)
  show ?thesis
  proof (cases r)
    case (Inl e)
    with l assms(2) show ?thesis by (auto simp: run_client_def serves_all_def)
  next
    case (Inr ln)
    obtain outs c2 w2 where a: "serve_all serve (accept_continue accepts) c w1 = (outs, c2, w2)"
      by (metis prod.exhaust)
    from serve_all_inv [OF assms(1) a assms(2)] a l Inr show ?thesis
      by (simp add: run_client_def serves_all_def)
  qed
qed

lemma serve_local_never_panics: "never_panics (serve_local env get) (\<lambda>_. True)"
  unfolding never_panics_def
proof (intro allI impI conjI TrueI)
  fix c w out c' w'
  assume r: "serve_local env get c w = (out, c', w')"
  obtain g c1 w1 where g: "get c w = (g, c1, w1)" by (metis prod.exhaust)
  show "out \<noteq> Panicked"
  proof (cases g)
    case (Inl e)
    with g r show ?thesis by (auto simp: serve_local_def)
  next
    case (Inr s)
    obtain q w2 where "ne_open_stream env w1 s = (q, w2)" by (metis prod.exhaust)
    with g Inr r show ?thesis by (cases q) (auto simp: serve_local_def)
  qed
qed

lemma mp_never_panics: "never_panics (mp_handleConn env) mp_inv"
  unfolding never_panics_def by (intro allI impI) (rule mp_handleConn_inv)


text \<open>A world of open resources in which the local listener always works.\<close>

definition demo_listen :: "(nat list, nat, nat) tcp_env" where
  "demo_listen = \<lparr>te_dial = (\<lambda>w d n a. (Inl EOF, w)), te_is_tcp = (\<lambda>c. True), te_set_nodelay = (\<lambda>w c b. w),
     te_listen = (\<lambda>w n a. (Inr 0, w))\<rparr>"


end
