(* ===== verification/Raw_Client.thy ===== *)
theory Raw_Client
  imports Client_Sessions
begin

text \<open>
  src/t2tunnel/engine_raw.go: the parameters of the raw transport and the client's
  \<open>getSession\<close>, which, unlike its three siblings, takes no mutex. The second part
  interleaves concurrent calls of \<open>getSession\<close> at the level of its reads and writes of
  the captured variable, with and without the mutex.
\<close>

record RawParams =
  RP_Iface :: string
  RP_SrcMAC :: string
  RP_GwMAC :: string
  RP_SrcIP :: string
  RP_DstIP :: string
  RP_SrcPort :: u16
  RP_DstPort :: u16

text \<open>\<open>kcp.NewConn3\<close>: conversation, peer, shards, packet connection.\<close>

type_synonym ('w, 'h, 'k) new_conn3 =
  "'w \<Rightarrow> nat \<Rightarrow> rawAddr \<Rightarrow> int \<Rightarrow> int \<Rightarrow> 'h rawPacketConn \<Rightarrow> (go_error + 'k) \<times> 'w"

definition raw_peer :: "('w, 'h) pcap_env \<Rightarrow> RawParams \<Rightarrow> rawAddr" where
  "raw_peer penv rp = \<lparr>ra_ip = ParseIP4 penv (RP_DstIP rp), ra_port = RP_DstPort rp\<rparr>"

definition raw_connect ::
  "('w, 'k, 's, 'st) net_env \<Rightarrow> ('w, 'h) pcap_env \<Rightarrow> ('w, 'h, 'k) new_conn3 \<Rightarrow> RawParams
     \<Rightarrow> 's client_state \<Rightarrow> 'w \<Rightarrow> (go_error + 's) option \<times> 's client_state \<times> 'w" where
  "raw_connect env penv newconn rp cl w =
     (case NewRawPacketConn penv w (RP_Iface rp) (RP_SrcMAC rp) (RP_GwMAC rp) (RP_SrcIP rp) (RP_DstIP rp)
             (RP_SrcPort rp) (RP_DstPort rp) of
        (None, w1) \<Rightarrow> (None, cl, w1)
      | (Some (Inl e), w1) \<Rightarrow> (Some (Inl e), cl, w1)
      | (Some (Inr pconn), w1) \<Rightarrow>
          (case newconn w1 1 (raw_peer penv rp) kcpDataShards kcpParityShards pconn of
             (Inl e, w2) \<Rightarrow> (Some (Inl e), cl, snd (raw_Close penv pconn w2))
           | (Inr k, w2) \<Rightarrow>
               (case start_session env w2 (OverKCP k applyKCP) of
                  (Inl e, w3) \<Rightarrow> (Some (Inl e), cl, w3)
                | (Inr s, w3) \<Rightarrow> (Some (Inr s), cl\<lparr>cl_session := Some s\<rparr>, w3))))"

definition raw_getSession ::
  "('w, 'k, 's, 'st) net_env \<Rightarrow> ('w, 'h) pcap_env \<Rightarrow> ('w, 'h, 'k) new_conn3 \<Rightarrow> RawParams
     \<Rightarrow> 's client_state \<Rightarrow> 'w \<Rightarrow> (go_error + 's) option \<times> 's client_state \<times> 'w" where
  "raw_getSession env penv newconn rp cl w =
     (case cl_session cl of
        Some s \<Rightarrow> if \<not> ne_session_closed env w s then (Some (Inr s), cl, w)
                   else raw_connect env penv newconn rp cl w
      | None \<Rightarrow> raw_connect env penv newconn rp cl w)"

subsection \<open>Capture handles\<close>

text \<open>
  A KCP session made by \<open>NewConn3\<close> does not own the packet connection it is given:
  neither making it, nor smux, nor closing it touches the capture handle.
\<close>

definition kcp_not_owner ::
  "('w, 'k, 's, 'st) net_env \<Rightarrow> ('w, 'h, 'k) new_conn3 \<Rightarrow> ('w \<Rightarrow> 'h set) \<Rightarrow> bool" where
  "kcp_not_owner env newconn handles \<longleftrightarrow>
     (\<forall>w n a d p c. handles (snd (newconn w n a d p c)) = handles w)
   \<and> (\<forall>w cfg c. handles (snd (ne_smux_client env w cfg c)) = handles w)
   \<and> (\<forall>w c. handles (ne_close_conn env w c) = handles w)"

lemma start_session_handles:
  assumes "kcp_not_owner env newconn handles" and "start_session env w c = (r, w')"
  shows "handles w' = handles w"
proof -
  obtain m w1 where m: "ne_smux_client env w (smuxConfig (ne_smux_default env)) (WrapObfs c DefaultObfsConfig) = (m, w1)"
    by (metis prod.exhaust)
  have "handles (snd (ne_smux_client env w (smuxConfig (ne_smux_default env)) (WrapObfs c DefaultObfsConfig))) = handles w"
    using assms(1) by (simp add: kcp_not_owner_def)
  with m have "handles w1 = handles w" by simp
  moreover have "handles (ne_close_conn env w1 c) = handles w1" using assms(1) by (simp add: kcp_not_owner_def)
  ultimately show ?thesis using m assms(2) by (cases m) (auto simp: start_session_def)
qed

definition opened_raw :: "('w, 'h) pcap_env \<Rightarrow> RawParams \<Rightarrow> 'w \<Rightarrow> 'h rawPacketConn \<Rightarrow> 'w \<Rightarrow> bool" where
  "opened_raw penv rp w pconn w1 \<longleftrightarrow>
     NewRawPacketConn penv w (RP_Iface rp) (RP_SrcMAC rp) (RP_GwMAC rp) (RP_SrcIP rp) (RP_DstIP rp)
       (RP_SrcPort rp) (RP_DstPort rp) = (Some (Inr pconn), w1)"

lemma raw_connect_handles:
  assumes "pcap_ok penv handles" and "kcp_not_owner env newconn handles"
    and "opened_raw penv rp w pconn w1"
    and "newconn w1 1 (raw_peer penv rp) kcpDataShards kcpParityShards pconn = (Inr k, w2)"
    and "raw_connect env penv newconn rp cl w = (r, cl', w')"
  shows "rp_handle pconn \<notin> handles w \<and> handles w' = insert (rp_handle pconn) (handles w)"
proof -
  note open_eq = assms(3) [unfolded opened_raw_def]
  from raw_open_cases [OF assms(1) open_eq] have
    fresh: "rp_handle pconn \<notin> handles w" and h1: "handles w1 = insert (rp_handle pconn) (handles w)"
    by simp_all
  have "handles (snd (newconn w1 1 (raw_peer penv rp) kcpDataShards kcpParityShards pconn)) = handles w1"
    using assms(2) by (simp add: kcp_not_owner_def)
  then have h2: "handles w2 = handles w1" using assms(4) by simp
  obtain m w3 where m: "start_session env w2 (OverKCP k applyKCP) = (m, w3)" by (metis prod.exhaust)
  have "w' = w3" using assms(5) open_eq assms(4) m by (cases m) (simp_all add: raw_connect_def)
  with start_session_handles [OF assms(2) m] fresh h1 h2 show ?thesis by simp
qed

lemma raw_getSession_renews:
  assumes "\<forall>s. cl_session cl = Some s \<longrightarrow> ne_session_closed env w s"
  shows "raw_getSession env penv newconn rp cl w = raw_connect env penv newconn rp cl w"
  using assms by (auto simp: raw_getSession_def split: option.splits)

fun raw_renewals ::
  "('w, 'k, 's, 'st) net_env \<Rightarrow> ('w, 'h) pcap_env \<Rightarrow> ('w, 'h, 'k) new_conn3 \<Rightarrow> RawParams \<Rightarrow> nat
     \<Rightarrow> 's client_state \<times> 'w \<Rightarrow> 's client_state \<times> 'w" where
  "raw_renewals env penv newconn rp 0 st = st"
| "raw_renewals env penv newconn rp (Suc n) st =
     raw_renewals env penv newconn rp n (snd (raw_getSession env penv newconn rp (fst st) (snd st)))"

text \<open>
  (C37) A raw client leaks capture handles: it never closes the packet connection under a
  session, and KCP does not either. So a client whose sessions die has opened, after
  \<open>n\<close> renewals, \<open>n\<close> handles that are all still open, each with its reader.
\<close>

theorem raw_client_leaks_handles:
  assumes "pcap_ok penv handles" and "kcp_not_owner env newconn handles"
    and opens_raw: "\<And>w. \<exists>pconn w1. opened_raw penv rp w pconn w1"
    and makes_kcp: "\<And>w n a d p c. \<exists>k w2. newconn w n a d p c = (Inr k, w2)"
    and "\<And>w s. ne_session_closed env w s"
    and "finite (handles w)"
  shows "finite (handles (snd (raw_renewals env penv newconn rp n (cl, w))))
    \<and> card (handles (snd (raw_renewals env penv newconn rp n (cl, w)))) = card (handles w) + n
    \<and> handles w \<subseteq> handles (snd (raw_renewals env penv newconn rp n (cl, w)))"
  using assms(6)
proof (induction n arbitrary: cl w)
  case (Suc n)
  obtain r cl1 w1 where g: "raw_getSession env penv newconn rp cl w = (r, cl1, w1)" by (metis prod.exhaust)
  with raw_getSession_renews [of cl env w penv newconn rp] assms(5)
  have c: "raw_connect env penv newconn rp cl w = (r, cl1, w1)" by simp
  obtain pconn w0 where o: "opened_raw penv rp w pconn w0" using opens_raw by blast
  obtain k w2 where "newconn w0 1 (raw_peer penv rp) kcpDataShards kcpParityShards pconn = (Inr k, w2)"
    using makes_kcp by blast
  from raw_connect_handles [OF assms(1,2) o this c] have
    "rp_handle pconn \<notin> handles w" "handles w1 = insert (rp_handle pconn) (handles w)" by simp_all
  with Suc.IH [of w1 cl1] Suc.prems g show ?case by auto
qed simp

definition demo_newconn :: "(nat list, nat, nat) new_conn3" where
  "demo_newconn w n a d p c = (Inr 5, w)"

definition demo_dead :: "(nat list, nat, nat, nat) net_env" where
  "demo_dead = demo_net\<lparr>ne_session_closed := \<lambda>w s. True, ne_close_conn := \<lambda>w c. w\<rparr>"

definition demo_rp :: RawParams where
  "demo_rp = \<lparr>RP_Iface = ''eth0'', RP_SrcMAC = ''m'', RP_GwMAC = ''m'', RP_SrcIP = ''10.0.0.1'',
     RP_DstIP = ''10.0.0.1'', RP_SrcPort = 4000, RP_DstPort = 5000\<rparr>"

lemma demo_opened: "\<exists>pconn w1. opened_raw demo_pcap demo_rp w pconn w1"
  by (simp add: opened_raw_def NewRawPacketConn_def demo_pcap_def demo_rp_def raw_filter_eq)

lemma demo_not_owner: "kcp_not_owner demo_dead demo_newconn set"
  by (auto simp: kcp_not_owner_def demo_newconn_def demo_dead_def demo_net_def split: wrapped.splits)

theorem raw_client_leaks_handles_witness:
  "card (set (snd (raw_renewals demo_dead demo_pcap demo_newconn demo_rp 4 (\<lparr>cl_session = None\<rparr>, [])))) = 4"
proof -
  have "\<And>w n a d p c. \<exists>k w2. demo_newconn w n a d p c = (Inr k, w2)" by (simp add: demo_newconn_def)
  moreover have "\<And>w s. ne_session_closed demo_dead w s" by (simp add: demo_dead_def)
  ultimately show ?thesis
    using raw_client_leaks_handles [OF demo_pcap_ok demo_not_owner demo_opened, of "[]" 4 "\<lparr>cl_session = None\<rparr>"]
    by simp
qed

subsection \<open>Concurrent calls\<close>

text \<open>
  Any number of goroutines call \<open>getSession\<close>. A goroutine reads \<open>session\<close> and finds it
  live, or goes on to dial; a dial fails, or yields a new session, which is then
  stored in \<open>session\<close>. With the mutex a goroutine holds it from the test to the store.
  Sessions are numbered in the order they are opened; one may die at any time.
\<close>

datatype get_pc = Idle | Dialling | Dialled nat | Got nat

record race_state =
  g_session :: "nat option"
  g_lock :: "nat option"
  g_pc :: "nat \<Rightarrow> get_pc"
  g_open :: "nat set"
  g_next :: nat

definition race_init :: race_state where
  "race_init = \<lparr>g_session = None, g_lock = None, g_pc = (\<lambda>g. Idle), g_open = {}, g_next = 0\<rparr>"

inductive get_step :: "bool \<Rightarrow> race_state \<Rightarrow> race_state \<Rightarrow> bool" for mutex where
  hit: "\<lbrakk>g_pc x g = Idle; mutex \<longrightarrow> g_lock x = None; g_session x = Some s; s \<in> g_open x\<rbrakk> \<Longrightarrow>
    get_step mutex x (x\<lparr>g_pc := (g_pc x)(g := Got s)\<rparr>)"
| miss: "\<lbrakk>g_pc x g = Idle; mutex \<longrightarrow> g_lock x = None; \<forall>s. g_session x = Some s \<longrightarrow> s \<notin> g_open x\<rbrakk> \<Longrightarrow>
    get_step mutex x (x\<lparr>g_pc := (g_pc x)(g := Dialling), g_lock := if mutex then Some g else g_lock x\<rparr>)"
| dial_fails: "g_pc x g = Dialling \<Longrightarrow>
    get_step mutex x (x\<lparr>g_pc := (g_pc x)(g := Idle), g_lock := if mutex then None else g_lock x\<rparr>)"
| dial_works: "g_pc x g = Dialling \<Longrightarrow>
    get_step mutex x (x\<lparr>g_pc := (g_pc x)(g := Dialled (g_next x)), g_open := insert (g_next x) (g_open x),
      g_next := Suc (g_next x)\<rparr>)"
| store: "g_pc x g = Dialled s \<Longrightarrow>
    get_step mutex x (x\<lparr>g_pc := (g_pc x)(g := Got s), g_session := Some s, g_lock := if mutex then None else g_lock x\<rparr>)"
| return: "g_pc x g = Got s \<Longrightarrow> get_step mutex x (x\<lparr>g_pc := (g_pc x)(g := Idle)\<rparr>)"
| dies: "get_step mutex x (x\<lparr>g_open := g_open x - {s}\<rparr>)"

definition busy :: "get_pc \<Rightarrow> bool" where
  "busy p \<longleftrightarrow> p = Dialling \<or> (\<exists>s. p = Dialled s)"

text \<open>
  With the mutex: whoever dials holds the lock, the session recorded then is dead, and
  an open session is the recorded one or the one just dialled.
\<close>

definition mutex_inv :: "race_state \<Rightarrow> bool" where
  "mutex_inv x \<longleftrightarrow>
     (\<forall>g. busy (g_pc x g) \<longrightarrow> g_lock x = Some g)
   \<and> (\<forall>g. g_pc x g = Dialling \<longrightarrow> g_open x = {})
   \<and> (\<forall>g s. g_pc x g = Dialled s \<longrightarrow> g_open x \<subseteq> {s})
   \<and> ((\<forall>g. \<not> busy (g_pc x g)) \<longrightarrow> g_open x \<subseteq> set_option (g_session x))
   \<and> (\<forall>s \<in> g_open x. s < g_next x)"

lemma mutex_dialling: "mutex_inv x \<Longrightarrow> g_pc x g = Dialling \<Longrightarrow> g_open x = {}"
  unfolding mutex_inv_def by blast

lemma mutex_dialled:
  "mutex_inv x \<Longrightarrow> g_pc x g = Dialled s \<Longrightarrow> g_open x \<subseteq> {s} \<and> (\<forall>s \<in> g_open x. s < g_next x)"
  unfolding mutex_inv_def by blast

lemma mutex_holder: "mutex_inv x \<Longrightarrow> busy (g_pc x g) \<Longrightarrow> g_lock x = Some g"
  unfolding mutex_inv_def by blast

lemma mutex_alone: "mutex_inv x \<Longrightarrow> busy (g_pc x g) \<Longrightarrow> h \<noteq> g \<Longrightarrow> \<not> busy (g_pc x h)"
  unfolding mutex_inv_def by (metis option.inject)

lemma mutex_inv_step: "get_step True x y \<Longrightarrow> mutex_inv x \<Longrightarrow> mutex_inv y"
proof (induction rule: get_step.induct)
  case (hit x g s)
  then show ?case by (auto simp: mutex_inv_def busy_def)
next
  case (miss x g)
  then have "\<forall>h. \<not> busy (g_pc x h)" by (auto simp: mutex_inv_def)
  with miss have e: "g_open x = {}" by (cases "g_session x") (auto simp: mutex_inv_def)
  with \<open>\<forall>h. \<not> busy (g_pc x h)\<close> miss show ?case by (auto simp: mutex_inv_def busy_def)
next
  case (dial_fails x g)
  then have "g_open x = {}" using mutex_dialling by blast
  moreover have "busy (g_pc x g)" using dial_fails(1) by (simp add: busy_def)
  moreover note mutex_alone [OF dial_fails(2) this] mutex_holder [OF dial_fails(2) this]
  ultimately show ?case by (auto simp: mutex_inv_def busy_def split: if_splits)
next
  case (dial_works x g)
  then have "g_open x = {}" using mutex_dialling by blast
  moreover have "busy (g_pc x g)" using dial_works(1) by (simp add: busy_def)
  moreover note mutex_alone [OF dial_works(2) this] mutex_holder [OF dial_works(2) this]
  ultimately show ?case by (auto simp: mutex_inv_def busy_def split: if_splits)
next
  case (store x g s)
  then have "g_open x \<subseteq> {s}" "\<forall>s \<in> g_open x. s < g_next x" using mutex_dialled by blast+
  moreover have "busy (g_pc x g)" using store(1) by (simp add: busy_def)
  moreover note mutex_alone [OF store(2) this] mutex_holder [OF store(2) this]
  ultimately show ?case by (auto simp: mutex_inv_def busy_def split: if_splits)
next
  case (return x g s)
  have pcs: "((g_pc x)(g := Idle)) h = Dialling \<longleftrightarrow> g_pc x h = Dialling"
    "((g_pc x)(g := Idle)) h = Dialled t \<longleftrightarrow> g_pc x h = Dialled t" for h t
    using return(1) by auto
  from return(2) show ?case
    by (simp add: mutex_inv_def busy_def pcs del: fun_upd_apply)
next
  case (dies x s)
  then show ?case by (auto simp: mutex_inv_def)
qed


definition demo_dialled :: race_state where
  "demo_dialled = \<lparr>g_session = None, g_lock = Some 0, g_pc = (\<lambda>g. Idle)(0 := Dialled 0), g_open = {0}, g_next = 1\<rparr>"

lemma first_dial: "(get_step True)\<^sup>*\<^sup>* race_init demo_dialled"
proof -
  let ?a = "race_init\<lparr>g_pc := (\<lambda>g. Idle)(0 := Dialling), g_lock := Some 0\<rparr>"
  have "get_step True race_init ?a"
    using get_step.miss [of race_init 0 True] by (simp add: race_init_def)
  moreover have "get_step True ?a demo_dialled"
    using get_step.dial_works [of ?a 0 True] by (simp add: race_init_def demo_dialled_def)
  ultimately show ?thesis by (meson rtranclp.rtrancl_refl rtranclp.rtrancl_into_rtrancl)
qed


text \<open>
  (C36) Without the mutex, as in the raw client, two goroutines can both find no session
  and both dial: one of the two open sessions is then recorded nowhere, so no later
  connection uses it, while the connection that opened it still does.
\<close>

theorem raw_getSession_race:
  "\<exists>x s. (get_step False)\<^sup>*\<^sup>* race_init x \<and> card (g_open x) = 2 \<and> (\<forall>g. \<not> busy (g_pc x g))
     \<and> s \<in> g_open x \<and> g_session x \<noteq> Some s \<and> (\<exists>g. g_pc x g = Got s)"
proof -
  let ?a = "race_init\<lparr>g_pc := (\<lambda>g. Idle)(0 := Dialling)\<rparr>"
  let ?b = "race_init\<lparr>g_pc := (\<lambda>g. Idle)(0 := Dialling, 1 := Dialling)\<rparr>"
  let ?c = "\<lparr>g_session = None, g_lock = None, g_pc = (\<lambda>g. Idle)(0 := Dialled 0, 1 := Dialling), g_open = {0}, g_next = 1\<rparr>"
  let ?d = "\<lparr>g_session = None, g_lock = None, g_pc = (\<lambda>g. Idle)(0 := Dialled 0, 1 := Dialled 1), g_open = {0, 1}, g_next = 2\<rparr>"
  let ?e = "\<lparr>g_session = Some 0, g_lock = None, g_pc = (\<lambda>g. Idle)(0 := Got 0, 1 := Dialled 1), g_open = {0, 1}, g_next = 2\<rparr>"
  let ?f = "\<lparr>g_session = Some 1, g_lock = None, g_pc = (\<lambda>g. Idle)(0 := Got 0, 1 := Got 1), g_open = {0, 1}, g_next = 2\<rparr>"
  have "get_step False race_init ?a" using get_step.miss [of race_init 0 False] by (simp add: race_init_def)
  moreover have "get_step False ?a ?b" using get_step.miss [of ?a 1 False] by (simp add: race_init_def)
  moreover have "get_step False ?b ?c"
    using get_step.dial_works [of ?b 0 False] by (simp add: race_init_def fun_upd_twist)
  moreover have "get_step False ?c ?d"
    using get_step.dial_works [of ?c 1 False] by (simp add: numeral_2_eq_2 insert_commute)
  moreover have "get_step False ?d ?e"
    using get_step.store [of ?d 0 0 False] by (simp add: fun_upd_twist)
  moreover have "get_step False ?e ?f" using get_step.store [of ?e 1 1 False] by simp
  ultimately have "(get_step False)\<^sup>*\<^sup>* race_init ?f"
    by (meson rtranclp.rtrancl_refl rtranclp.rtrancl_into_rtrancl)
  then show ?thesis
    by (intro exI [of _ ?f] exI [of _ 0]) (auto simp: busy_def intro: exI [of _ 0])
qed

subsection \<open>The engine\<close>

definition raw_serve ::
  "('w, 'k, 's, 'st) net_env \<Rightarrow> ('w, 'h) pcap_env \<Rightarrow> ('w, 'h, 'k) new_conn3 \<Rightarrow> RawParams
     \<Rightarrow> 's client_state \<Rightarrow> 'w \<Rightarrow> 'st conn_outcome \<times> 's client_state \<times> 'w" where
  "raw_serve env penv newconn rp cl w =
     (case raw_getSession env penv newconn rp cl w of
        (None, cl1, w1) \<Rightarrow> (Panicked, cl1, w1)
      | (Some (Inl e), cl1, w1) \<Rightarrow> (ClientClosed, cl1, w1)
      | (Some (Inr s), cl1, w1) \<Rightarrow>
          (case ne_open_stream env w1 s of
             (Inl e, w2) \<Rightarrow> (ClientClosed, cl1, w2)
           | (Inr st, w2) \<Rightarrow> (Piped st, cl1, w2)))"

definition runClientRaw ::
  "('w, 'k, 's, 'st) net_env \<Rightarrow> ('w, 'h) pcap_env \<Rightarrow> ('w, 'h, 'k) new_conn3 \<Rightarrow> ('w, 'o, 'l) tcp_env \<Rightarrow> 'w
     \<Rightarrow> string \<Rightarrow> RawParams \<Rightarrow> (go_error + 'conn) list
     \<Rightarrow> ('conn \<times> 'st conn_outcome) server_run \<times> 's client_state \<times> 'w" where
  "runClientRaw env penv newconn tcp w listen rp accepts =
     run_client tcp (raw_serve env penv newconn rp) \<lparr>cl_session = None\<rparr> w listen accepts"

lemma raw_getSession_no_panic: "fst (raw_getSession env penv newconn rp cl w) \<noteq> None"
proof -
  have "fst (raw_connect env penv newconn rp cl w) \<noteq> None"
  proof -
    obtain p w1 where p: "NewRawPacketConn penv w (RP_Iface rp) (RP_SrcMAC rp) (RP_GwMAC rp) (RP_SrcIP rp) (RP_DstIP rp)
        (RP_SrcPort rp) (RP_DstPort rp) = (p, w1)" by (metis prod.exhaust)
    with NewRawPacketConn_no_panic obtain r where r: "p = Some r" by (metis fst_conv option.exhaust)
    show ?thesis
    proof (cases r)
      case (Inl e)
      with p r show ?thesis by (simp add: raw_connect_def)
    next
      case (Inr pconn)
      obtain k w2 where k: "newconn w1 1 (raw_peer penv rp) kcpDataShards kcpParityShards pconn = (k, w2)"
        by (metis prod.exhaust)
      show ?thesis
      proof (cases k)
        case (Inl e)
        with p r Inr k show ?thesis by (simp add: raw_connect_def)
      next
        case (Inr c)
        obtain s w3 where "start_session env w2 (OverKCP c applyKCP) = (s, w3)" by (metis prod.exhaust)
        with p r \<open>r = Inr pconn\<close> k Inr show ?thesis by (cases s) (simp_all add: raw_connect_def)
      qed
    qed
  qed
  then show ?thesis by (simp add: raw_getSession_def split: option.split)
qed

lemma raw_serve_never_panics: "never_panics (raw_serve env penv newconn rp) (\<lambda>_. True)"
  unfolding never_panics_def
proof (intro allI impI conjI TrueI)
  fix cl w out cl' w'
  assume r: "raw_serve env penv newconn rp cl w = (out, cl', w')"
  obtain g cl1 w1 where g: "raw_getSession env penv newconn rp cl w = (g, cl1, w1)" by (metis prod.exhaust)
  then obtain q where q: "g = Some q" using raw_getSession_no_panic by (metis fst_conv option.exhaust)
  show "out \<noteq> Panicked"
  proof (cases q)
    case (Inl e)
    with g q r show ?thesis by (auto simp: raw_serve_def)
  next
    case (Inr s)
    obtain x w2 where "ne_open_stream env w1 s = (x, w2)" by (metis prod.exhaust)
    with g q Inr r show ?thesis by (cases x) (auto simp: raw_serve_def)
  qed
qed

text \<open>The raw client serves every local connection, as its siblings do.\<close>

lemma raw_client_serves_all:
  "serves_all tcp w listen accepts (fst (runClientRaw env penv newconn tcp w listen rp accepts))"
  unfolding runClientRaw_def by (rule run_client_serves [OF raw_serve_never_panics TrueI, THEN conjunct1])

end
