(* ===== verification/Auto_Discover.thy ===== *)
theory Auto_Discover
  imports Go_Strings
begin

text \<open>
  src/t2tunnel/autodiscover.go: finding the interface, addresses and gateway MAC for the
  raw transport by running \<open>ip\<close> and reading /proc/net/arp. The operating system is the
  record \<open>os_env\<close>; the parsing is the code's.
\<close>

record AutoNetInfo =
  Iface :: string
  LocalIP :: string
  LocalMAC :: string
  GatewayIP :: string
  GatewayMAC :: string

text \<open>
  \<open>exec_output\<close> is \<open>exec.Command(...).Output\<close>, \<open>exec_run\<close> is \<open>Run\<close> with the error
  ignored, \<open>interface_hw\<close> the hardware address of \<open>net.InterfaceByName\<close>, and
  \<open>arp_table\<close> the contents of /proc/net/arp, or \<open>None\<close> if it cannot be opened.
\<close>

record 'w os_env =
  exec_output :: "'w \<Rightarrow> string list \<Rightarrow> (go_error + string) \<times> 'w"
  exec_run :: "'w \<Rightarrow> string list \<Rightarrow> 'w"
  interface_hw :: "'w \<Rightarrow> string \<Rightarrow> go_error + bytes"
  arp_table :: "'w \<Rightarrow> string option"

text \<open>\<open>net.HardwareAddr.String\<close>.\<close>

definition HardwareAddr_String :: "bytes \<Rightarrow> string" where
  "HardwareAddr_String a = Join (map hex_byte a) '':''"

text \<open>
  The lines of \<open>bufio.Scanner\<close>: a final empty line is not reported, a carriage return
  at the end of a line is dropped, and scanning stops at the first line too long for
  the 64 KiB buffer.
\<close>

definition drop_cr :: "string \<Rightarrow> string" where
  "drop_cr l = (if l \<noteq> [] \<and> last l = CHR 0x0D then butlast l else l)"

definition scan_lines :: "string \<Rightarrow> string list" where
  "scan_lines s =
     (let ls = Split (CHR 0x0A) s; ls1 = (if last ls = [] then butlast ls else ls)
      in map drop_cr (takeWhile (\<lambda>l. length l < 65536) ls1))"

subsection \<open>The code\<close>

text \<open>The loop over the words of the route, from index \<open>i\<close> on.\<close>

definition route_word :: "string list \<Rightarrow> nat \<Rightarrow> AutoNetInfo \<Rightarrow> AutoNetInfo" where
  "route_word ws i info =
     (if ws ! i = ''via'' then
        (if i + 1 < length ws then info\<lparr>GatewayIP := ws ! (i + 1)\<rparr> else info)
      else if ws ! i = ''dev'' then
        (if i + 1 < length ws then info\<lparr>Iface := ws ! (i + 1)\<rparr> else info)
      else if ws ! i = ''src'' then
        (if i + 1 < length ws then info\<lparr>LocalIP := ws ! (i + 1)\<rparr> else info)
      else info)"

definition route_fields :: "string list \<Rightarrow> AutoNetInfo \<Rightarrow> AutoNetInfo" where
  "route_fields ws info = fold (route_word ws) [0 ..< length ws] info"

definition no_info :: AutoNetInfo where
  "no_info = \<lparr>Iface = [], LocalIP = [], LocalMAC = [], GatewayIP = [], GatewayMAC = []\<rparr>"

fun lladdr_after :: "string list \<Rightarrow> string option" where
  "lladdr_after (f # g # fs) = (if f = ''lladdr'' then Some g else lladdr_after (g # fs))"
| "lladdr_after _ = None"

fun arp_lookup :: "string \<Rightarrow> string list \<Rightarrow> string" where
  "arp_lookup ip [] = []"
| "arp_lookup ip (l # ls) =
     (let ws = Fields l
      in if 4 \<le> length ws \<and> ws ! 0 = ip \<and> ws ! 3 \<noteq> ''00:00:00:00:00:00''
         then ws ! 3 else arp_lookup ip ls)"

definition readNeighMAC :: "'w os_env \<Rightarrow> 'w \<Rightarrow> string \<Rightarrow> string \<times> 'w" where
  "readNeighMAC env w ip =
     (case exec_output env w [''ip'', ''neigh'', ''show'', ip] of
        (r, w1) \<Rightarrow>
          (case (case r of Inl e \<Rightarrow> None | Inr out \<Rightarrow> lladdr_after (Fields out)) of
             Some mac \<Rightarrow> (mac, w1)
           | None \<Rightarrow>
               (case arp_table env w1 of
                  None \<Rightarrow> ([], w1)
                | Some tbl \<Rightarrow> (arp_lookup ip (tl (scan_lines tbl)), w1))))"

definition findGatewayMAC :: "'w os_env \<Rightarrow> 'w \<Rightarrow> string \<Rightarrow> string \<Rightarrow> (go_error + string) \<times> 'w" where
  "findGatewayMAC env w gwIP iface =
     (case readNeighMAC env w gwIP of
        (mac, w1) \<Rightarrow>
          if mac \<noteq> [] then (Inr mac, w1)
          else
            (case readNeighMAC env (exec_run env w1 [''ping'', ''-c'', ''1'', ''-W'', ''1'', gwIP]) gwIP of
               (mac2, w2) \<Rightarrow>
                 if mac2 \<noteq> [] then (Inr mac2, w2) else (Inl (OtherErr ''MAC not found''), w2)))"

definition AutoDiscover :: "'w os_env \<Rightarrow> 'w \<Rightarrow> string \<Rightarrow> (go_error + AutoNetInfo) \<times> 'w" where
  "AutoDiscover env w towardIP =
     (case exec_output env w [''ip'', ''route'', ''get'', towardIP] of
        (Inl e, w1) \<Rightarrow> (Inl (Wrapped ''ip route get'' e), w1)
      | (Inr out, w1) \<Rightarrow>
          (let info = route_fields (Fields out) no_info
           in if Iface info = [] \<or> LocalIP info = [] then (Inl (OtherErr ''no interface or local address''), w1)
              else if GatewayIP info = [] then (Inl (OtherErr ''no gateway''), w1)
              else
                (case interface_hw env w1 (Iface info) of
                   Inl e \<Rightarrow> (Inl (Wrapped (Iface info) e), w1)
                 | Inr hw \<Rightarrow>
                     (let info1 = info\<lparr>LocalMAC := HardwareAddr_String hw\<rparr>
                      in case findGatewayMAC env w1 (GatewayIP info1) (Iface info1) of
                           (Inl e, w2) \<Rightarrow> (Inl (Wrapped ''gateway MAC'' e), w2)
                         | (Inr gwMAC, w2) \<Rightarrow> (Inr (info1\<lparr>GatewayMAC := gwMAC\<rparr>), w2)))))"

subsection \<open>Parsing the route\<close>

text \<open>The specification: the word after the last occurrence of a keyword.\<close>

fun after_last :: "string \<Rightarrow> string list \<Rightarrow> string option" where
  "after_last k (x # y # r) =
     (case after_last k (y # r) of Some v \<Rightarrow> Some v | None \<Rightarrow> if x = k then Some y else None)"
| "after_last k _ = None"

definition or_empty :: "string option \<Rightarrow> string" where
  "or_empty v = (case v of None \<Rightarrow> [] | Some s \<Rightarrow> s)"

text \<open>The last index at which the keyword is followed by a word decides.\<close>

lemma after_last_snoc:
  "after_last k (ws @ [x, y]) = (if x = k then Some y else after_last k (ws @ [x]))"
  by (induction k ws rule: after_last.induct) (auto split: option.splits)

definition route_spec :: "string list \<Rightarrow> AutoNetInfo" where
  "route_spec ws = no_info\<lparr>Iface := or_empty (after_last ''dev'' ws),
     LocalIP := or_empty (after_last ''src'' ws), GatewayIP := or_empty (after_last ''via'' ws)\<rparr>"

lemma route_word_last: "i + 1 = length ws \<Longrightarrow> route_word ws i info = info"
  by (simp add: route_word_def)

lemma route_word_prefix:
  "i + 1 < length ws \<Longrightarrow> route_word (ws @ vs) i info = route_word ws i info"
  by (simp add: route_word_def nth_append)

lemma route_fold_prefix:
  "\<forall>i \<in> set is. i + 1 < length ws \<Longrightarrow> fold (route_word (ws @ vs)) is info = fold (route_word ws) is info"
  by (induction "is" arbitrary: info) (simp_all add: route_word_prefix)

lemma route_fields_spec: "route_fields ws no_info = route_spec ws"
proof (induction ws rule: rev_induct)
  case Nil
  show ?case by (simp add: route_fields_def route_spec_def no_info_def or_empty_def)
next
  case (snoc y ws)
  show ?case
  proof (cases ws rule: rev_cases)
    case Nil
    then show ?thesis
      by (simp add: route_fields_def route_spec_def no_info_def or_empty_def route_word_def)
  next
    case (snoc us x)
    have upt: "[0 ..< length ws] = [0 ..< length us] @ [length us]" by (simp add: snoc)
    have "route_fields (ws @ [y]) no_info = route_word (ws @ [y]) (length us)
        (fold (route_word ws) [0 ..< length us] no_info)"
      using route_fold_prefix [of "[0 ..< length us]" ws "[y]"]
      by (simp add: route_fields_def upt route_word_last snoc)
    also have "fold (route_word ws) [0 ..< length us] no_info = route_fields ws no_info"
      by (simp add: route_fields_def upt route_word_last snoc)
    also have "\<dots> = route_spec ws" by (rule snoc.IH)
    finally show ?thesis
      using after_last_snoc [of _ us x y]
      by (simp add: snoc route_word_def route_spec_def no_info_def or_empty_def nth_append)
  qed
qed

lemma after_last_in: "after_last k ws = Some v \<Longrightarrow> v \<in> set ws"
  by (induction k ws rule: after_last.induct) (auto split: option.splits if_splits)

lemma lladdr_after_in: "lladdr_after ws = Some v \<Longrightarrow> \<exists>us vs. ws = us @ ''lladdr'' # v # vs"
proof (induction ws rule: lladdr_after.induct)
  case (1 f g fs)
  show ?case
  proof (cases "f = ''lladdr''")
    case True
    with 1(2) show ?thesis by (intro exI [of _ "[]"] exI [of _ fs]) simp
  next
    case False
    with 1 obtain us vs where "g # fs = us @ ''lladdr'' # v # vs" by auto
    then show ?thesis by (intro exI [of _ "f # us"] exI [of _ vs]) simp
  qed
qed simp_all

lemma arp_lookup_found:
  "arp_lookup ip ls = mac \<Longrightarrow> mac \<noteq> [] \<Longrightarrow>
     \<exists>l \<in> set ls. 4 \<le> length (Fields l) \<and> Fields l ! 0 = ip \<and> Fields l ! 3 = mac \<and> mac \<noteq> ''00:00:00:00:00:00''"
  by (induction ls) (auto simp: Let_def split: if_splits)

definition route_of :: "'w os_env \<Rightarrow> 'w \<Rightarrow> string \<Rightarrow> string list \<Rightarrow> 'w \<Rightarrow> bool" where
  "route_of env w dst ws w1 \<longleftrightarrow>
     (\<exists>out. exec_output env w [''ip'', ''route'', ''get'', dst] = (Inr out, w1) \<and> ws = Fields out)"

lemma findGatewayMAC_nonempty: "findGatewayMAC env w gw iface = (Inr mac, w') \<Longrightarrow> mac \<noteq> []"
  by (auto simp: findGatewayMAC_def split: prod.splits if_splits)

lemma AutoDiscover_route:
  assumes "route_of env w dst ws w1"
  shows "AutoDiscover env w dst =
    (let info = route_spec ws
     in if Iface info = [] \<or> LocalIP info = [] then (Inl (OtherErr ''no interface or local address''), w1)
        else if GatewayIP info = [] then (Inl (OtherErr ''no gateway''), w1)
        else case interface_hw env w1 (Iface info) of
             Inl e \<Rightarrow> (Inl (Wrapped (Iface info) e), w1)
           | Inr hw \<Rightarrow>
               (case findGatewayMAC env w1 (GatewayIP info) (Iface info) of
                  (Inl e, w2) \<Rightarrow> (Inl (Wrapped ''gateway MAC'' e), w2)
                | (Inr gwMAC, w2) \<Rightarrow>
                    (Inr (info\<lparr>LocalMAC := HardwareAddr_String hw, GatewayMAC := gwMAC\<rparr>), w2)))"
  using assms by (auto simp: route_of_def AutoDiscover_def route_fields_spec Let_def split: sum.splits)

lemma route_missing:
  "route_of env w dst ws w1 \<Longrightarrow>
     (Iface (route_spec ws) = [] \<longleftrightarrow> after_last ''dev'' ws = None)
   \<and> (LocalIP (route_spec ws) = [] \<longleftrightarrow> after_last ''src'' ws = None)
   \<and> (GatewayIP (route_spec ws) = [] \<longleftrightarrow> after_last ''via'' ws = None)"
  using Fields_not_Nil
  by (auto simp: route_spec_def or_empty_def route_of_def dest!: after_last_in split: option.splits)

text \<open>
  (C32) Successful discovery is complete and comes from the route: interface, local
  address and gateway are the words after the last \<open>dev\<close>, \<open>src\<close> and \<open>via\<close> of the
  output of \<open>ip route get\<close>, none is empty, and neither is the MAC found for the
  gateway; the local MAC is the interface's. If one of the three words is missing,
  discovery fails without asking for the interface or the gateway.
\<close>

theorem autodiscover_complete:
  assumes "route_of env w dst ws w1" and "AutoDiscover env w dst = (r, w')"
  shows "case r of
      Inr info \<Rightarrow> after_last ''dev'' ws = Some (Iface info) \<and> after_last ''src'' ws = Some (LocalIP info)
        \<and> after_last ''via'' ws = Some (GatewayIP info)
        \<and> Iface info \<noteq> [] \<and> LocalIP info \<noteq> [] \<and> GatewayIP info \<noteq> [] \<and> GatewayMAC info \<noteq> []
        \<and> (\<exists>hw. interface_hw env w1 (Iface info) = Inr hw \<and> LocalMAC info = HardwareAddr_String hw)
    | Inl e \<Rightarrow> (\<exists>k \<in> {''dev'', ''src'', ''via''}. after_last k ws = None) \<longrightarrow> w' = w1"
proof -
  note eq = AutoDiscover_route [OF assms(1)] and miss = route_missing [OF assms(1)]
  consider "after_last ''dev'' ws = None \<or> after_last ''src'' ws = None \<or> after_last ''via'' ws = None"
    | i s g where "after_last ''dev'' ws = Some i" "after_last ''src'' ws = Some s" "after_last ''via'' ws = Some g"
    by fastforce
  then show ?thesis
  proof cases
    case 1
    with eq miss assms(2) show ?thesis by (auto simp: Let_def split: if_splits)
  next
    case 2
    then have info: "route_spec ws = no_info\<lparr>Iface := i, LocalIP := s, GatewayIP := g\<rparr>"
      by (simp add: route_spec_def or_empty_def)
    obtain m w2 where f: "findGatewayMAC env w1 g i = (m, w2)" by (metis prod.exhaust)
    with eq miss assms(2) 2 info findGatewayMAC_nonempty [of env w1 g i] show ?thesis
      by (cases "interface_hw env w1 i"; cases m) (auto simp: Let_def)
  qed
qed

definition route_text :: "string \<Rightarrow> string \<Rightarrow> string \<Rightarrow> string \<Rightarrow> string" where
  "route_text dst gw dev src =
     dst @ '' via '' @ gw @ '' dev '' @ dev @ '' src '' @ src @ '' uid 0 ''
     @ [CHR 0x0A] @ ''    cache '' @ [CHR 0x0A]"

text \<open>A machine with one route, one interface and one neighbour, found after a ping.\<close>

definition demo_os :: "bool os_env" where
  "demo_os =
     \<lparr>exec_output = (\<lambda>w cmd.
        if cmd ! 1 = ''route'' then (Inr (route_text ''9.9.9.9'' ''10.0.0.1'' ''eth0'' ''10.0.0.2''), w)
        else (Inr (if w then ''10.0.0.1 dev eth0 lladdr aa:bb:cc:dd:ee:ff '' else []), w)),
      exec_run = (\<lambda>w cmd. True),
      interface_hw = (\<lambda>w i. Inr [0, 171]),
      arp_table = (\<lambda>w. None)\<rparr>"

lemma plain_words [simp]:
  "plain_word ''via''" "plain_word ''dev''" "plain_word ''src''" "plain_word ''uid''" "plain_word ''0''"
  "plain_word ''lladdr''" "plain_word ''cache''"
  by (simp_all add: plain_word_def plain_char_def)

lemma route_text_words:
  assumes "plain_word dst" "plain_word gw" "plain_word dev" "plain_word src"
  shows "Fields (route_text dst gw dev src) = [dst, ''via'', gw, ''dev'', dev, ''src'', src, ''uid'', ''0'', ''cache'']"
proof -
  have s: "route_text dst gw dev src = dst @ CHR '' '' # ''via'' @ CHR '' '' # gw @ CHR '' '' # ''dev'' @ CHR '' '' #
      dev @ CHR '' '' # ''src'' @ CHR '' '' # src @ CHR '' '' # ''uid'' @ CHR '' '' # ''0'' @ CHR '' '' #
      CHR 0x0A # CHR '' '' # CHR '' '' # CHR '' '' # CHR '' '' # ''cache'' @ CHR '' '' # CHR 0x0A # []"
    by (simp add: route_text_def)
  show ?thesis
    unfolding s by (simp only: Fields_word(1) assms plain_words Fields_Nil Fields_space Fields_newline)
qed

text \<open>
  The text \<open>ip route get\<close> prints is read back: for the usual line, with words of
  printable characters that are not themselves keywords, the parser finds the gateway,
  the interface and the source address that were printed.
\<close>

theorem route_text_parsed:
  assumes "plain_word dst" "plain_word gw" "plain_word dev" "plain_word src"
    and "{dst, gw, dev, src} \<inter> {''via'', ''dev'', ''src''} = {}"
  shows "route_fields (Fields (route_text dst gw dev src)) no_info =
    \<lparr>Iface = dev, LocalIP = src, LocalMAC = [], GatewayIP = gw, GatewayMAC = []\<rparr>"
proof -
  let ?ws = "[dst, ''via'', gw, ''dev'', dev, ''src'', src, ''uid'', ''0'', ''cache'']"
  have "after_last ''dev'' ?ws = Some dev" "after_last ''src'' ?ws = Some src"
    "after_last ''via'' ?ws = Some gw"
    using assms(5) by auto
  then show ?thesis
    unfolding route_text_words [OF assms(1-4)] route_fields_spec route_spec_def
    by (simp only: no_info_def or_empty_def) simp
qed

lemma demo_words [simp]:
  "plain_word ''9.9.9.9''" "plain_word ''10.0.0.1''" "plain_word ''eth0''" "plain_word ''10.0.0.2''"
  "plain_word ''aa:bb:cc:dd:ee:ff''"
  by (simp_all add: plain_word_def plain_char_def)

theorem route_text_parsed_witness:
  "route_fields (Fields (route_text ''9.9.9.9'' ''10.0.0.1'' ''eth0'' ''10.0.0.2'')) no_info =
    \<lparr>Iface = ''eth0'', LocalIP = ''10.0.0.2'', LocalMAC = [], GatewayIP = ''10.0.0.1'', GatewayMAC = []\<rparr>"
  by (rule route_text_parsed) simp_all

lemma demo_route:
  "route_of demo_os False ''9.9.9.9''
     [''9.9.9.9'', ''via'', ''10.0.0.1'', ''dev'', ''eth0'', ''src'', ''10.0.0.2'', ''uid'', ''0'', ''cache''] False"
  by (simp add: route_of_def demo_os_def route_text_words)

lemma demo_neigh_words:
  "Fields ''10.0.0.1 dev eth0 lladdr aa:bb:cc:dd:ee:ff '' =
     [''10.0.0.1'', ''dev'', ''eth0'', ''lladdr'', ''aa:bb:cc:dd:ee:ff'']"
proof -
  have s: "''10.0.0.1 dev eth0 lladdr aa:bb:cc:dd:ee:ff '' = ''10.0.0.1'' @ CHR '' '' # ''dev'' @ CHR '' '' #
      ''eth0'' @ CHR '' '' # ''lladdr'' @ CHR '' '' # ''aa:bb:cc:dd:ee:ff'' @ CHR '' '' # []" by simp
  show ?thesis unfolding s by (simp only: Fields_word(1) demo_words plain_words Fields_Nil)
qed

lemma demo_neigh:
  "readNeighMAC demo_os False gw = ([], False)"
  "readNeighMAC demo_os True gw = (''aa:bb:cc:dd:ee:ff'', True)"
  by (simp_all add: readNeighMAC_def demo_os_def demo_neigh_words)

lemma demo_gateway: "findGatewayMAC demo_os False gw i = (Inr ''aa:bb:cc:dd:ee:ff'', True)"
proof -
  have "exec_run demo_os w cmd = True" for w cmd by (simp add: demo_os_def)
  then show ?thesis by (simp add: findGatewayMAC_def demo_neigh)
qed

definition demo_info :: AutoNetInfo where
  "demo_info = \<lparr>Iface = ''eth0'', LocalIP = ''10.0.0.2'', LocalMAC = ''00:ab'', GatewayIP = ''10.0.0.1'',
     GatewayMAC = ''aa:bb:cc:dd:ee:ff''\<rparr>"

lemma demo_discover: "AutoDiscover demo_os False ''9.9.9.9'' = (Inr demo_info, True)"
proof -
  have hw: "interface_hw demo_os False i = Inr [0, 171]" for i by (simp add: demo_os_def)
  have mac: "HardwareAddr_String [0, 171] = ''00:ab''"
    by (simp add: HardwareAddr_String_def hex_byte_def hex_digit_def) code_simp
  show ?thesis
    by (simp add: AutoDiscover_route [OF demo_route] route_spec_def or_empty_def no_info_def
        hw mac demo_gateway demo_info_def)
qed

theorem autodiscover_complete_witness:
  "AutoDiscover demo_os False ''9.9.9.9'' = (Inr demo_info, True) \<and> GatewayMAC demo_info \<noteq> []"
  using autodiscover_complete [OF demo_route demo_discover] demo_discover by simp

definition neigh_listed :: "'w os_env \<Rightarrow> string \<Rightarrow> string \<Rightarrow> bool" where
  "neigh_listed env ip mac \<longleftrightarrow>
     (\<exists>w w1 out us vs. exec_output env w [''ip'', ''neigh'', ''show'', ip] = (Inr out, w1)
        \<and> Fields out = us @ ''lladdr'' # mac # vs)
   \<or> (\<exists>w tbl. arp_table env w = Some tbl \<and> mac \<noteq> ''00:00:00:00:00:00''
        \<and> (\<exists>l \<in> set (tl (scan_lines tbl)). 4 \<le> length (Fields l) \<and> Fields l ! 0 = ip \<and> Fields l ! 3 = mac))"

lemma readNeighMAC_listed:
  assumes "readNeighMAC env w ip = (mac, w')" and "mac \<noteq> []"
  shows "neigh_listed env ip mac"
proof -
  obtain r w1 where e: "exec_output env w [''ip'', ''neigh'', ''show'', ip] = (r, w1)" by (metis prod.exhaust)
  show ?thesis
  proof (cases "case r of Inl e \<Rightarrow> None | Inr out \<Rightarrow> lladdr_after (Fields out)")
    case None
    with e assms obtain tbl where "arp_table env w1 = Some tbl" "arp_lookup ip (tl (scan_lines tbl)) = mac"
      by (auto simp: readNeighMAC_def split: option.splits)
    with arp_lookup_found [of ip "tl (scan_lines tbl)" mac] assms(2) show ?thesis
      unfolding neigh_listed_def by blast
  next
    case (Some m)
    then obtain out where "r = Inr out" "lladdr_after (Fields out) = Some m" by (cases r) auto
    moreover have "m = mac" using Some e assms(1) by (simp add: readNeighMAC_def)
    ultimately show ?thesis
      using lladdr_after_in [of "Fields out" m] e unfolding neigh_listed_def by blast
  qed
qed

text \<open>
  A MAC reported for the gateway was really listed for it: it follows \<open>lladdr\<close> in
  what \<open>ip neigh\<close> printed for that address, or is the fourth column of a line of the
  ARP table, not the heading, whose first column is that address, and then not the
  all-zero MAC of an incomplete entry. The gateway is pinged only when a first look
  found nothing, and an error means that the look after the ping found nothing either.
\<close>

theorem gateway_mac_listed:
  assumes "findGatewayMAC env w gw iface = (r, w')"
  shows "(\<forall>mac. r = Inr mac \<longrightarrow> mac \<noteq> [] \<and> neigh_listed env gw mac)
    \<and> (fst (readNeighMAC env w gw) \<noteq> [] \<longrightarrow> (r, w') = (Inr (fst (readNeighMAC env w gw)), snd (readNeighMAC env w gw)))
    \<and> (\<forall>e. r = Inl e \<longrightarrow> (\<exists>w1. readNeighMAC env w gw = ([], w1)
         \<and> readNeighMAC env (exec_run env w1 [''ping'', ''-c'', ''1'', ''-W'', ''1'', gw]) gw = ([], w')))"
proof -
  obtain m1 w1 where n1: "readNeighMAC env w gw = (m1, w1)" by (metis prod.exhaust)
  obtain m2 w2 where n2: "readNeighMAC env (exec_run env w1 [''ping'', ''-c'', ''1'', ''-W'', ''1'', gw]) gw = (m2, w2)"
    by (metis prod.exhaust)
  show ?thesis
    using assms n1 n2 readNeighMAC_listed [OF n1] readNeighMAC_listed [OF n2]
    by (auto simp: findGatewayMAC_def split: if_splits)
qed

theorem gateway_mac_listed_witness:
  "findGatewayMAC demo_os False ''10.0.0.1'' ''eth0'' = (Inr ''aa:bb:cc:dd:ee:ff'', True)
   \<and> neigh_listed demo_os ''10.0.0.1'' ''aa:bb:cc:dd:ee:ff''"
  using gateway_mac_listed [OF demo_gateway] demo_gateway by blast

end
