(* ===== verification/Ip_Tables.thy ===== *)
theory Ip_Tables
  imports Go_Strings
begin

text \<open>
  src/t2tunnel/iptables.go: the firewall rules of the raw transport. Running the
  command \<open>iptables\<close> is the parameter \<open>run\<close>: it takes the arguments and returns an
  error or the output. What the code relies on of the command is \<open>iptables_ok\<close>, stated
  through \<open>tab\<close>, the rules of each table in order.
\<close>

record iptablesRule =
  table :: string
  args :: "string list"

record IPTablesManager =
  rules :: "iptablesRule list"

type_synonym 'w iptables_cmd = "'w \<Rightarrow> string list \<Rightarrow> (go_error option \<times> string) \<times> 'w"

definition NewIPTablesManager :: "u16 \<Rightarrow> IPTablesManager" where
  "NewIPTablesManager port =
     (let p = decimal (unat port)
      in \<lparr>rules =
           [\<lparr>table = ''filter'', args = [''OUTPUT'', ''-p'', ''tcp'', ''--sport'', p, ''--tcp-flags'', ''RST'', ''RST'', ''-j'', ''DROP'']\<rparr>,
            \<lparr>table = ''raw'', args = [''OUTPUT'', ''-p'', ''tcp'', ''--sport'', p, ''-j'', ''NOTRACK'']\<rparr>,
            \<lparr>table = ''raw'', args = [''PREROUTING'', ''-p'', ''tcp'', ''--dport'', p, ''-j'', ''NOTRACK'']\<rparr>]\<rparr>)"

fun apply_rules :: "'w iptables_cmd \<Rightarrow> 'w \<Rightarrow> iptablesRule list \<Rightarrow> go_error option \<times> 'w" where
  "apply_rules run w [] = (None, w)"
| "apply_rules run w (r # rs) =
     (case run w ([''-t'', table r, ''-C''] @ args r) of
        ((None, out), w1) \<Rightarrow> apply_rules run w1 rs
      | ((Some e, out), w1) \<Rightarrow>
          (case run w1 ([''-t'', table r, ''-A''] @ args r) of
             ((Some e2, out2), w2) \<Rightarrow> (Some (Wrapped out2 e2), w2)
           | ((None, out2), w2) \<Rightarrow> apply_rules run w2 rs))"

definition Apply :: "'w iptables_cmd \<Rightarrow> 'w \<Rightarrow> IPTablesManager \<Rightarrow> go_error option \<times> 'w" where
  "Apply run w m = apply_rules run w (rules m)"

fun cleanup_rules :: "'w iptables_cmd \<Rightarrow> 'w \<Rightarrow> iptablesRule list \<Rightarrow> 'w" where
  "cleanup_rules run w [] = w"
| "cleanup_rules run w (r # rs) =
     cleanup_rules run (snd (run w ([''-t'', table r, ''-D''] @ args r))) rs"

definition Cleanup :: "'w iptables_cmd \<Rightarrow> 'w \<Rightarrow> IPTablesManager \<Rightarrow> 'w" where
  "Cleanup run w m = cleanup_rules run w (rules m)"

subsection \<open>The command\<close>

text \<open>
  The manual of iptables: \<open>-C\<close> succeeds if the rule exists and changes nothing; \<open>-A\<close>
  appends the rule or fails; \<open>-D\<close> deletes the first such rule, or fails if there is
  none. The hypothesis for \<open>-D\<close> includes that the deletion itself succeeds.
\<close>

definition iptables_ok :: "'w iptables_cmd \<Rightarrow> ('w \<Rightarrow> string \<Rightarrow> string list list) \<Rightarrow> bool" where
  "iptables_ok run tab \<longleftrightarrow>
     (\<forall>w t a. case run w ([''-t'', t, ''-C''] @ a) of ((e, out), w1) \<Rightarrow>
        (e = None \<longleftrightarrow> a \<in> set (tab w t)) \<and> tab w1 = tab w)
   \<and> (\<forall>w t a. case run w ([''-t'', t, ''-A''] @ a) of ((e, out), w1) \<Rightarrow>
        tab w1 = (if e = None then (tab w)(t := tab w t @ [a]) else tab w))
   \<and> (\<forall>w t a. tab (snd (run w ([''-t'', t, ''-D''] @ a))) = (tab w)(t := remove1 a (tab w t)))"

lemma iptables_check:
  assumes "iptables_ok run tab" and "run w ([''-t'', t, ''-C''] @ a) = ((e, out), w1)"
  shows "(e = None \<longleftrightarrow> a \<in> set (tab w t)) \<and> tab w1 = tab w"
proof -
  note assms(1) [unfolded iptables_ok_def, THEN conjunct1, THEN spec, of w, THEN spec, of t, THEN spec, of a]
  with assms(2) show ?thesis by simp
qed

lemma iptables_append:
  assumes "iptables_ok run tab" and "run w ([''-t'', t, ''-A''] @ a) = ((e, out), w1)"
  shows "tab w1 = (if e = None then (tab w)(t := tab w t @ [a]) else tab w)"
proof -
  note assms(1) [unfolded iptables_ok_def, THEN conjunct2, THEN conjunct1,
      THEN spec, of w, THEN spec, of t, THEN spec, of a]
  with assms(2) show ?thesis by simp
qed

lemma iptables_delete:
  "iptables_ok run tab \<Longrightarrow>
     tab (snd (run w (''-t'' # t # ''-D'' # a))) = (tab w)(t := remove1 a (tab w t))"
  by (simp add: iptables_ok_def)

subsection \<open>What the code does to the tables\<close>

text \<open>Adding a rule unless it is there, and removing it.\<close>

definition ensure :: "iptablesRule \<Rightarrow> (string \<Rightarrow> string list list) \<Rightarrow> string \<Rightarrow> string list list" where
  "ensure r T = (if args r \<in> set (T (table r)) then T else T(table r := T (table r) @ [args r]))"

definition discard :: "iptablesRule \<Rightarrow> (string \<Rightarrow> string list list) \<Rightarrow> string \<Rightarrow> string list list" where
  "discard r T = T(table r := remove1 (args r) (T (table r)))"

text \<open>\<open>Apply\<close> stops after \<open>k\<close> rules; without an error \<open>k\<close> is all of them.\<close>

lemma apply_rules_tab:
  assumes "iptables_ok run tab" and "apply_rules run w rs = (e, w')"
  shows "\<exists>k \<le> length rs. tab w' = fold ensure (take k rs) (tab w) \<and> (e = None \<longrightarrow> k = length rs)"
  using assms(2)
proof (induction rs arbitrary: w)
  case Nil
  then show ?case by auto
next
  case (Cons r rs)
  obtain e1 out1 w1 where c: "run w ([''-t'', table r, ''-C''] @ args r) = ((e1, out1), w1)"
    by (metis prod.exhaust)
  obtain e2 out2 w2 where a: "run w1 ([''-t'', table r, ''-A''] @ args r) = ((e2, out2), w2)"
    by (metis prod.exhaust)
  note C = iptables_check [OF assms(1) c] and A = iptables_append [OF assms(1) a]
  consider (present) "e1 = None" | (added) "e1 \<noteq> None" "e2 = None" | (failed) "e1 \<noteq> None" "e2 \<noteq> None" by blast
  then show ?case
  proof cases
    case present
    with Cons.prems c have "apply_rules run w1 rs = (e, w')" by simp
    from Cons.IH [OF this] obtain k where "k \<le> length rs" "tab w' = fold ensure (take k rs) (tab w1)"
      "e = None \<longrightarrow> k = length rs" by blast
    moreover have "ensure r (tab w) = tab w1" using C present by (simp add: ensure_def)
    ultimately show ?thesis by (intro exI [of _ "Suc k"]) simp
  next
    case added
    with Cons.prems c a have "apply_rules run w2 rs = (e, w')" by auto
    from Cons.IH [OF this] obtain k where "k \<le> length rs" "tab w' = fold ensure (take k rs) (tab w2)"
      "e = None \<longrightarrow> k = length rs" by blast
    moreover have "ensure r (tab w) = tab w2" using C A added by (simp add: ensure_def)
    ultimately show ?thesis by (intro exI [of _ "Suc k"]) simp
  next
    case failed
    with Cons.prems c a have "e \<noteq> None" "w' = w2" by auto
    with C A failed show ?thesis by (intro exI [of _ 0]) auto
  qed
qed

lemma cleanup_rules_tab:
  "iptables_ok run tab \<Longrightarrow> tab (cleanup_rules run w rs) = fold discard rs (tab w)"
proof (induction rs arbitrary: w)
  case (Cons r rs)
  then have "tab (snd (run w (''-t'' # table r # ''-D'' # args r))) = discard r (tab w)"
    by (simp only: iptables_delete discard_def)
  with Cons show ?case by simp
qed simp

lemma manager_rules_distinct: "distinct (rules (NewIPTablesManager port))"
  by (simp add: NewIPTablesManager_def Let_def)

text \<open>The tables after \<open>ensure\<close> and \<open>discard\<close>, table by table.\<close>

definition rules_for :: "string \<Rightarrow> iptablesRule list \<Rightarrow> string list list" where
  "rules_for t rs = map args (filter (\<lambda>r. table r = t) rs)"

lemma fold_ensure:
  assumes "distinct rs"
  shows "fold ensure rs T t = T t @ filter (\<lambda>a. a \<notin> set (T t)) (rules_for t rs)"
  using assms
proof (induction rs rule: rev_induct)
  case Nil
  then show ?case by (simp add: rules_for_def)
next
  case (snoc r rs)
  have "args r \<notin> set (rules_for t rs)" if t: "table r = t"
  proof
    assume "args r \<in> set (rules_for t rs)"
    then obtain r' where "r' \<in> set rs" "table r' = table r" "args r = args r'"
      using t by (auto simp: rules_for_def)
    moreover from this have "r' = r" by simp
    ultimately show False using snoc.prems by simp
  qed
  with snoc show ?case by (auto simp: ensure_def rules_for_def)
qed

lemma fold_discard: "fold discard rs T t = fold remove1 (rules_for t rs) (T t)"
  by (induction rs arbitrary: T) (auto simp: rules_for_def discard_def)

lemma fold_remove1_absent: "set as \<inter> set xs = {} \<Longrightarrow> fold remove1 as xs = xs"
  by (induction as) (auto simp: remove1_idem)

lemma fold_remove1_appended:
  assumes "distinct as" and "set as \<inter> set xs = {}" and "prefix bs as"
  shows "fold remove1 as (xs @ bs) = xs"
  using assms
proof (induction as arbitrary: bs)
  case Nil
  then show ?case by simp
next
  case (Cons a as)
  then show ?case
    by (cases bs) (auto simp: remove1_append remove1_idem fold_remove1_absent)
qed

text \<open>
  A successful \<open>Apply\<close> leaves every rule of the manager in its table, appended once
  if it was missing and not duplicated if it was there, and touches nothing else; so
  applying again changes nothing.
\<close>

lemma apply_success_tab:
  assumes "iptables_ok run tab" and "Apply run w (NewIPTablesManager port) = (None, w1)"
  shows "tab w1 t = tab w t @ filter (\<lambda>a. a \<notin> set (tab w t)) (rules_for t (rules (NewIPTablesManager port)))"
  using apply_rules_tab [OF assms(1) assms(2) [unfolded Apply_def]]
    fold_ensure [OF manager_rules_distinct] by auto

lemma apply_success_present:
  assumes "iptables_ok run tab" and "Apply run w (NewIPTablesManager port) = (None, w1)"
    and "r \<in> set (rules (NewIPTablesManager port))"
  shows "args r \<in> set (tab w1 (table r))"
  using assms(3) by (auto simp: apply_success_tab [OF assms(1,2)] rules_for_def)

theorem iptables_apply_idempotent:
  assumes "iptables_ok run tab" and "Apply run w (NewIPTablesManager port) = (None, w1)"
  shows "(\<forall>t. tab w1 t = tab w t
        @ filter (\<lambda>a. a \<notin> set (tab w t)) (rules_for t (rules (NewIPTablesManager port))))
    \<and> (\<forall>r \<in> set (rules (NewIPTablesManager port)). args r \<in> set (tab w1 (table r)))
    \<and> (\<forall>e w2. Apply run w1 (NewIPTablesManager port) = (e, w2) \<longrightarrow> tab w2 = tab w1)"
proof -
  let ?rs = "rules (NewIPTablesManager port)"
  note t1 = apply_success_tab [OF assms] and all = apply_success_present [OF assms]
  have "tab w2 = tab w1" if ap: "Apply run w1 (NewIPTablesManager port) = (e, w2)" for e w2
  proof -
    obtain k where k: "tab w2 = fold ensure (take k ?rs) (tab w1)"
      using apply_rules_tab [OF assms(1) ap [unfolded Apply_def]] by blast
    have "fold ensure rs (tab w1) = tab w1" if "set rs \<subseteq> set ?rs" for rs
      using that by (induction rs) (simp_all add: ensure_def all)
    from this [OF set_take_subset] k show ?thesis by simp
  qed
  with t1 all show ?thesis by blast
qed

text \<open>
  (C19) \<open>Cleanup\<close> undoes \<open>Apply\<close>, also one that failed half-way, if the rules were not in
  the tables before: afterwards every table is as it was.
\<close>

theorem iptables_cleanup_restores:
  assumes "iptables_ok run tab"
    and "\<forall>r \<in> set (rules (NewIPTablesManager port)). args r \<notin> set (tab w (table r))"
    and "Apply run w (NewIPTablesManager port) = (e, w1)"
  shows "tab (Cleanup run w1 (NewIPTablesManager port)) = tab w"
proof
  fix t
  let ?rs = "rules (NewIPTablesManager port)"
  obtain k where k: "tab w1 = fold ensure (take k ?rs) (tab w)"
    using apply_rules_tab [OF assms(1) assms(3) [unfolded Apply_def]] by blast
  have abs: "set (rules_for t ?rs) \<inter> set (tab w t) = {}"
    using assms(2) by (auto simp: rules_for_def)
  have pre: "prefix (rules_for t (take k ?rs)) (rules_for t ?rs)"
    by (metis append_take_drop_id filter_append map_append prefixI rules_for_def)
  have dist: "distinct (rules_for t ?rs)"
    using manager_rules_distinct
    by (auto simp: rules_for_def distinct_map inj_on_def intro!: iptablesRule.equality)
  have "set (rules_for t (take k ?rs)) \<inter> set (tab w t) = {}"
    using abs set_mono_prefix [OF pre] by blast
  then have "filter (\<lambda>a. a \<notin> set (tab w t)) (rules_for t (take k ?rs)) = rules_for t (take k ?rs)"
    by (auto simp: filter_id_conv)
  then have "tab w1 t = tab w t @ rules_for t (take k ?rs)"
    by (simp add: k fold_ensure distinct_take manager_rules_distinct)
  then show "tab (Cleanup run w1 (NewIPTablesManager port)) t = tab w t"
    using fold_remove1_appended [OF dist abs pre]
    by (simp add: Cleanup_def cleanup_rules_tab [OF assms(1)] fold_discard)
qed

text \<open>An implementation of the command on lists of rules.\<close>

definition demo_iptables :: "(string \<Rightarrow> string list list) iptables_cmd" where
  "demo_iptables w a =
     (if a ! 2 = ''-C'' then ((if drop 3 a \<in> set (w (a ! 1)) then None else Some (OtherErr ''bad rule''), []), w)
      else if a ! 2 = ''-A'' then ((None, []), w(a ! 1 := w (a ! 1) @ [drop 3 a]))
      else ((if drop 3 a \<in> set (w (a ! 1)) then None else Some (OtherErr ''bad rule''), []),
            w(a ! 1 := remove1 (drop 3 a) (w (a ! 1)))))"

lemma demo_iptables_ok: "iptables_ok demo_iptables id"
  by (simp add: iptables_ok_def demo_iptables_def numeral_2_eq_2 numeral_3_eq_3)

lemma demo_apply:
  "\<exists>w1. Apply demo_iptables (\<lambda>t. []) (NewIPTablesManager 4000) = (None, w1)"
  by (simp add: Apply_def NewIPTablesManager_def demo_iptables_def Let_def numeral_2_eq_2 numeral_3_eq_3)

theorem iptables_apply_idempotent_witness:
  "\<exists>w1. Apply demo_iptables (\<lambda>t. []) (NewIPTablesManager 4000) = (None, w1)
     \<and> (\<forall>r \<in> set (rules (NewIPTablesManager 4000)). args r \<in> set (w1 (table r)))"
proof -
  obtain w1 where a: "Apply demo_iptables (\<lambda>t. []) (NewIPTablesManager 4000) = (None, w1)"
    using demo_apply by blast
  from iptables_apply_idempotent [OF demo_iptables_ok a] a show ?thesis by auto
qed

theorem iptables_cleanup_restores_witness:
  "\<exists>e w1. Apply demo_iptables (\<lambda>t. []) (NewIPTablesManager 4000) = (e, w1)
     \<and> id (Cleanup demo_iptables w1 (NewIPTablesManager 4000)) = (\<lambda>t. [])"
proof -
  obtain w1 where a: "Apply demo_iptables (\<lambda>t. []) (NewIPTablesManager 4000) = (None, w1)"
    using demo_apply by blast
  from iptables_cleanup_restores [OF demo_iptables_ok _ a] a show ?thesis by auto
qed

end
