(* ===== verification/Engine_Main.thy ===== *)
theory Engine_Main
  imports Raw_Client Auto_Discover Ip_Tables
begin

text \<open>
  The function \<open>main\<close> of src/t2tunnel/engine.go, from the parsed flags to the engine it
  starts. The flags are a record; \<open>log.Fatal\<close> ends the process, so it is a result.
  The result also holds the two global variables \<open>main\<close> sets, and the firewall manager
  its signal handler will clean up.
\<close>

record flags =
  fl_mode :: string
  fl_listen :: string
  fl_target :: string
  fl_remote :: string
  fl_key :: string
  fl_transport :: string
  fl_iface :: string
  fl_srcMAC :: string
  fl_gwMAC :: string
  fl_srcIP :: string
  fl_dstIP :: string
  fl_srcPort :: int
  fl_dstPort :: int
  fl_noAutoIPT :: bool
  fl_sni :: string
  fl_remotes :: string
  fl_wsPath :: string
  fl_wsHost :: string
  fl_wsTLS :: bool
  fl_utls :: bool
  fl_frag :: int

text \<open>The values the flags have when they are not given.\<close>

definition default_flags :: flags where
  "default_flags =
     \<lparr>fl_mode = [], fl_listen = [], fl_target = [], fl_remote = [], fl_key = [], fl_transport = ''udp'',
      fl_iface = [], fl_srcMAC = [], fl_gwMAC = [], fl_srcIP = [], fl_dstIP = [], fl_srcPort = 0, fl_dstPort = 0,
      fl_noAutoIPT = False, fl_sni = ''www.cloudflare.com'', fl_remotes = [], fl_wsPath = ''/'', fl_wsHost = [],
      fl_wsTLS = True, fl_utls = False, fl_frag = 0\<rparr>"

datatype fatal_reason =
    NoKey | BadCrypt go_error | NoDstIP | DiscoveryFailed go_error | NoTarget | RawIncomplete | NoListen
  | EmptyRemotes | NoRemote | BadMode

datatype ('s, 'blk) launch =
    Exit fatal_reason
  | RunServerRaw string 'blk RawParams
  | RunServerTLS string string string
  | RunServerWS string string string string bool
  | RunServer string string 'blk
  | RunClientRaw string 'blk RawParams
  | RunMultiPath "'s MultiPathClient"
  | RunClientTLS string string string
  | RunClientWS string string string string string bool
  | RunClient string string 'blk

definition string_bytes :: "string \<Rightarrow> bytes" where
  "string_bytes s = map (\<lambda>c. word_of_nat (of_char c)) s"

definition pad32 :: "bytes \<Rightarrow> bytes" where
  "pad32 k = take 32 (k @ replicate 32 0)"

text \<open>Filling in what the user left empty.\<close>

definition fill_raw :: "AutoNetInfo \<Rightarrow> flags \<Rightarrow> flags" where
  "fill_raw ni fl =
     fl\<lparr>fl_iface := if fl_iface fl = [] then Iface ni else fl_iface fl,
        fl_srcMAC := if fl_srcMAC fl = [] then LocalMAC ni else fl_srcMAC fl,
        fl_gwMAC := if fl_gwMAC fl = [] then GatewayMAC ni else fl_gwMAC fl,
        fl_srcIP := if fl_srcIP fl = [] then LocalIP ni else fl_srcIP fl\<rparr>"

definition discover_raw :: "'w os_env \<Rightarrow> 'w \<Rightarrow> flags \<Rightarrow> (fatal_reason + flags) \<times> 'w" where
  "discover_raw env w fl =
     (if fl_transport fl = ''raw'' then
        if fl_dstIP fl = [] then (Inl NoDstIP, w)
        else if fl_srcMAC fl = [] \<or> fl_gwMAC fl = [] \<or> fl_srcIP fl = [] \<or> fl_iface fl = [] then
          (case AutoDiscover env w (fl_dstIP fl) of
             (Inl e, w1) \<Rightarrow> (Inl (DiscoveryFailed e), w1)
           | (Inr ni, w1) \<Rightarrow> (Inr (fill_raw ni fl), w1))
        else (Inr fl, w)
      else (Inr fl, w))"

text \<open>The conversions \<open>uint16(*srcPort)\<close> and \<open>uint16(*dstPort)\<close> reduce modulo \<open>2 ^ 16\<close>.\<close>

definition raw_params :: "flags \<Rightarrow> RawParams" where
  "raw_params fl =
     \<lparr>RP_Iface = fl_iface fl, RP_SrcMAC = fl_srcMAC fl, RP_GwMAC = fl_gwMAC fl, RP_SrcIP = fl_srcIP fl,
      RP_DstIP = fl_dstIP fl, RP_SrcPort = word_of_int (fl_srcPort fl), RP_DstPort = word_of_int (fl_dstPort fl)\<rparr>"

definition rawValid :: "flags \<Rightarrow> bool" where
  "rawValid fl \<longleftrightarrow> fl_srcMAC fl \<noteq> [] \<and> fl_gwMAC fl \<noteq> [] \<and> fl_srcIP fl \<noteq> [] \<and> fl_dstIP fl \<noteq> []
     \<and> fl_srcPort fl \<noteq> 0 \<and> fl_dstPort fl \<noteq> 0"

text \<open>An error of \<open>Apply\<close> is only logged.\<close>

definition setup_iptables :: "'w iptables_cmd \<Rightarrow> 'w \<Rightarrow> flags \<Rightarrow> IPTablesManager option \<times> 'w" where
  "setup_iptables run w fl =
     (if fl_transport fl = ''raw'' \<and> \<not> fl_noAutoIPT fl \<and> fl_srcPort fl \<noteq> 0
      then let ipt = NewIPTablesManager (word_of_int (fl_srcPort fl)) in (Some ipt, snd (Apply run w ipt))
      else (None, w))"

text \<open>The servers named by \<open>-remotes\<close>; \<open>mk\<close> builds the endpoint of one address.\<close>

definition remote_servers :: "(string \<Rightarrow> ServerEndpoint) \<Rightarrow> string \<Rightarrow> ServerEndpoint list" where
  "remote_servers mk remotes = map mk (filter (\<lambda>a. a \<noteq> []) (map TrimSpace (Split (CHR '','') remotes)))"

definition tls_endpoint :: "flags \<Rightarrow> string \<Rightarrow> ServerEndpoint" where
  "tls_endpoint fl a = \<lparr>Address = a, SNI = fl_sni fl, Transport = [], WSPath = [], WSHost = [], WSTLS = False,
     failCount = 0, lastFail = 0\<rparr>"

definition ws_endpoint :: "flags \<Rightarrow> string \<Rightarrow> ServerEndpoint" where
  "ws_endpoint fl a = \<lparr>Address = a, SNI = fl_sni fl, Transport = ''ws'', WSPath = fl_wsPath fl,
     WSHost = fl_wsHost fl, WSTLS = fl_wsTLS fl, failCount = 0, lastFail = 0\<rparr>"

definition launch_multipath :: "flags \<Rightarrow> ServerEndpoint list \<Rightarrow> ('s, 'blk) launch" where
  "launch_multipath fl servers =
     (if length servers = 0 then Exit EmptyRemotes else RunMultiPath (NewMultiPathClient (fl_listen fl) servers))"

definition dispatch_server :: "flags \<Rightarrow> 'blk \<Rightarrow> ('s, 'blk) launch" where
  "dispatch_server fl block =
     (if fl_target fl = [] then Exit NoTarget
      else if fl_transport fl = ''raw'' then
        (if \<not> rawValid fl then Exit RawIncomplete else RunServerRaw (fl_target fl) block (raw_params fl))
      else if fl_transport fl = ''tls'' then
        (if fl_listen fl = [] then Exit NoListen else RunServerTLS (fl_listen fl) (fl_target fl) (fl_sni fl))
      else if fl_transport fl = ''ws'' then
        (if fl_listen fl = [] then Exit NoListen
         else RunServerWS (fl_listen fl) (fl_target fl) (fl_wsPath fl) (fl_sni fl) (fl_wsTLS fl))
      else
        (if fl_listen fl = [] then Exit NoListen else RunServer (fl_listen fl) (fl_target fl) block))"

definition dispatch_client :: "flags \<Rightarrow> 'blk \<Rightarrow> ('s, 'blk) launch" where
  "dispatch_client fl block =
     (if fl_listen fl = [] then Exit NoListen
      else if fl_transport fl = ''raw'' then
        (if \<not> rawValid fl then Exit RawIncomplete else RunClientRaw (fl_listen fl) block (raw_params fl))
      else if fl_transport fl = ''tls'' then
        (if fl_remotes fl \<noteq> [] then launch_multipath fl (remote_servers (tls_endpoint fl) (fl_remotes fl))
         else if fl_remote fl = [] then Exit NoRemote
         else RunClientTLS (fl_listen fl) (fl_remote fl) (fl_sni fl))
      else if fl_transport fl = ''ws'' then
        (if fl_remotes fl \<noteq> [] then launch_multipath fl (remote_servers (ws_endpoint fl) (fl_remotes fl))
         else if fl_remote fl = [] then Exit NoRemote
         else RunClientWS (fl_listen fl) (fl_remote fl) (fl_wsHost fl) (fl_wsPath fl) (fl_sni fl) (fl_wsTLS fl))
      else
        (if fl_remote fl = [] then Exit NoRemote else RunClient (fl_listen fl) (fl_remote fl) block))"

definition dispatch :: "flags \<Rightarrow> 'blk \<Rightarrow> ('s, 'blk) launch" where
  "dispatch fl block =
     (if fl_mode fl = ''server'' then dispatch_server fl block
      else if fl_mode fl = ''client'' then dispatch_client fl block
      else Exit BadMode)"

record ('s, 'blk) main_result =
  mr_launch :: "('s, 'blk) launch"
  mr_useUTLS :: bool
  mr_fragSize :: int
  mr_ipt :: "IPTablesManager option"

definition main ::
  "(bytes \<Rightarrow> go_error + 'blk) \<Rightarrow> 'w os_env \<Rightarrow> 'w iptables_cmd \<Rightarrow> 'w \<Rightarrow> flags \<Rightarrow> ('s, 'blk) main_result \<times> 'w" where
  "main NewAESBlockCrypt env run w fl =
     (let result = (\<lambda>l ipt. \<lparr>mr_launch = l, mr_useUTLS = fl_utls fl, mr_fragSize = fl_frag fl, mr_ipt = ipt\<rparr>)
      in if fl_key fl = [] then (result (Exit NoKey) None, w)
         else case NewAESBlockCrypt (pad32 (string_bytes (fl_key fl))) of
                Inl e \<Rightarrow> (result (Exit (BadCrypt e)) None, w)
              | Inr block \<Rightarrow>
                  (case discover_raw env w fl of
                     (Inl r, w1) \<Rightarrow> (result (Exit r) None, w1)
                   | (Inr fl1, w1) \<Rightarrow>
                       (case setup_iptables run w1 fl1 of
                          (ipt, w2) \<Rightarrow> (result (dispatch fl1 block) ipt, w2))))"

subsection \<open>Properties\<close>

lemma length_pad32 [simp]: "length (pad32 k) = 32"
  by (simp add: pad32_def)

lemma main_started:
  assumes "main aes env run w fl = (res, w')" and "\<forall>r. mr_launch res \<noteq> Exit r"
  obtains block fl1 w1 where "fl_key fl \<noteq> []" "aes (pad32 (string_bytes (fl_key fl))) = Inr block"
    "discover_raw env w fl = (Inr fl1, w1)" "mr_launch res = dispatch fl1 block"
    "mr_ipt res = fst (setup_iptables run w1 fl1)" "w' = snd (setup_iptables run w1 fl1)"
proof -
  from assms have k: "fl_key fl \<noteq> []" by (auto simp: main_def)
  obtain b where b: "aes (pad32 (string_bytes (fl_key fl))) = Inr b"
    using assms k by (cases "aes (pad32 (string_bytes (fl_key fl)))") (auto simp: main_def)
  obtain d w1 where d: "discover_raw env w fl = (d, w1)" by (metis prod.exhaust)
  then obtain fl1 where "d = Inr fl1" using assms k b by (cases d) (auto simp: main_def)
  with that k b d assms show thesis by (cases "setup_iptables run w1 fl1") (auto simp: main_def)
qed

text \<open>The discovered flags differ from the given ones in the four raw parameters only.\<close>

lemma discover_raw_keeps:
  assumes "discover_raw env w fl = (Inr fl1, w1)"
  shows "fl_mode fl1 = fl_mode fl \<and> fl_listen fl1 = fl_listen fl \<and> fl_target fl1 = fl_target fl
    \<and> fl_remote fl1 = fl_remote fl \<and> fl_transport fl1 = fl_transport fl \<and> fl_remotes fl1 = fl_remotes fl
    \<and> fl_srcPort fl1 = fl_srcPort fl \<and> fl_dstPort fl1 = fl_dstPort fl \<and> fl_dstIP fl1 = fl_dstIP fl
    \<and> fl_noAutoIPT fl1 = fl_noAutoIPT fl"
  using assms by (auto simp: discover_raw_def fill_raw_def split: if_splits prod.splits sum.splits)

definition launch_ok :: "flags \<Rightarrow> ('s, 'blk) launch \<Rightarrow> bool" where
  "launch_ok fl l =
     (case l of
        Exit r \<Rightarrow> True
      | RunServerRaw t b rp \<Rightarrow> fl_mode fl = ''server'' \<and> fl_transport fl = ''raw'' \<and> t \<noteq> [] \<and> RP_SrcMAC rp \<noteq> []
          \<and> RP_GwMAC rp \<noteq> [] \<and> RP_SrcIP rp \<noteq> [] \<and> RP_DstIP rp \<noteq> [] \<and> fl_srcPort fl \<noteq> 0 \<and> fl_dstPort fl \<noteq> 0
      | RunServerTLS ls t s \<Rightarrow> fl_mode fl = ''server'' \<and> fl_transport fl = ''tls'' \<and> ls \<noteq> [] \<and> t \<noteq> []
      | RunServerWS ls t p s u \<Rightarrow> fl_mode fl = ''server'' \<and> fl_transport fl = ''ws'' \<and> ls \<noteq> [] \<and> t \<noteq> []
      | RunServer ls t b \<Rightarrow> fl_mode fl = ''server'' \<and> fl_transport fl \<notin> {''raw'', ''tls'', ''ws''} \<and> ls \<noteq> [] \<and> t \<noteq> []
      | RunClientRaw ls b rp \<Rightarrow> fl_mode fl = ''client'' \<and> fl_transport fl = ''raw'' \<and> ls \<noteq> [] \<and> RP_SrcMAC rp \<noteq> []
          \<and> RP_GwMAC rp \<noteq> [] \<and> RP_SrcIP rp \<noteq> [] \<and> RP_DstIP rp \<noteq> [] \<and> fl_srcPort fl \<noteq> 0 \<and> fl_dstPort fl \<noteq> 0
      | RunMultiPath m \<Rightarrow> fl_mode fl = ''client'' \<and> fl_transport fl \<in> {''tls'', ''ws''} \<and> mp_listen m \<noteq> [] \<and> mp_inv m
          \<and> mp_servers m \<noteq> [] \<and> (\<forall>srv \<in> set (mp_servers m). Address srv \<noteq> [] \<and> failCount srv = 0
               \<and> (Transport srv = ''ws'' \<longleftrightarrow> fl_transport fl = ''ws''))
      | RunClientTLS ls r s \<Rightarrow> fl_mode fl = ''client'' \<and> fl_transport fl = ''tls'' \<and> ls \<noteq> [] \<and> r \<noteq> []
      | RunClientWS ls r h p s u \<Rightarrow> fl_mode fl = ''client'' \<and> fl_transport fl = ''ws'' \<and> ls \<noteq> [] \<and> r \<noteq> []
      | RunClient ls r b \<Rightarrow> fl_mode fl = ''client'' \<and> fl_transport fl \<notin> {''raw'', ''tls'', ''ws''} \<and> ls \<noteq> [] \<and> r \<noteq> [])"

lemma launch_multipath_ok:
  assumes "fl_mode fl = ''client''" and "fl_listen fl \<noteq> []"
    and "mk = tls_endpoint fl \<and> fl_transport fl = ''tls'' \<or> mk = ws_endpoint fl \<and> fl_transport fl = ''ws''"
  shows "launch_ok fl (launch_multipath fl (remote_servers mk rs) :: ('s, 'blk) launch)"
proof -
  have "launch_ok fl (launch_multipath fl (map mk xs) :: ('s, 'blk) launch)" if "\<forall>a \<in> set xs. a \<noteq> []" for xs
    using assms that mp_inv_new [of "fl_listen fl" "map mk xs"]
    by (auto simp: launch_ok_def launch_multipath_def NewMultiPathClient_def tls_endpoint_def ws_endpoint_def)
  then show ?thesis unfolding remote_servers_def by (auto simp del: filter_map)
qed

lemma dispatch_ok: "launch_ok fl (dispatch fl block :: ('s, 'blk) launch)"
proof -
  have "launch_ok fl (dispatch_server fl block :: ('s, 'blk) launch)" if "fl_mode fl = ''server''"
    using that by (simp add: dispatch_server_def launch_ok_def raw_params_def rawValid_def)
  moreover have "launch_ok fl (dispatch_client fl block :: ('s, 'blk) launch)" if m: "fl_mode fl = ''client''"
  proof (cases "fl_listen fl = []")
    case True
    then show ?thesis by (simp add: dispatch_client_def launch_ok_def)
  next
    case False
    show ?thesis
    proof (cases "fl_remotes fl \<noteq> [] \<and> fl_transport fl \<in> {''tls'', ''ws''}")
      case True
      then show ?thesis
        using False launch_multipath_ok [OF m False, of "tls_endpoint fl"]
          launch_multipath_ok [OF m False, of "ws_endpoint fl"]
        by (auto simp: dispatch_client_def)
    next
      case no_mp: False
      with False m show ?thesis
        by (auto simp: dispatch_client_def launch_ok_def raw_params_def rawValid_def)
    qed
  qed
  moreover have "launch_ok fl (Exit BadMode :: ('s, 'blk) launch)" by (simp add: launch_ok_def)
  ultimately show ?thesis unfolding dispatch_def by presburger
qed


definition demo_aes :: "bytes \<Rightarrow> go_error + bytes" where
  "demo_aes k = (if length k \<in> {16, 24, 32} then Inr k else Inl (OtherErr ''invalid key size''))"

definition demo_client_flags :: flags where
  "demo_client_flags = default_flags\<lparr>fl_mode := ''client'', fl_listen := '':1080'', fl_transport := ''tls'',
     fl_key := ''k'', fl_remotes := '' a:443 ,,b:443''\<rparr>"

lemma demo_remotes: "remote_servers mk '' a:443 ,,b:443'' = [mk ''a:443'', mk ''b:443'']"
proof -
  have "TrimSpace '' a:443 '' = ''a:443''" "TrimSpace [] = []" "TrimSpace ''b:443'' = ''b:443''"
    using TrimSpace_padded [of "''a:443''" 1 1] TrimSpace_padded [of "[]" 0 0] TrimSpace_padded [of "''b:443''" 0 0]
    by (simp_all add: spaces_def plain_word_def plain_char_def)
  then show ?thesis by (simp add: remote_servers_def)
qed

lemma demo_main:
  "main demo_aes env run w demo_client_flags =
     (\<lparr>mr_launch = RunMultiPath (NewMultiPathClient '':1080''
         [tls_endpoint demo_client_flags ''a:443'', tls_endpoint demo_client_flags ''b:443'']),
       mr_useUTLS = False, mr_fragSize = 0, mr_ipt = None\<rparr>, w)"
proof -
  have "fl_remotes demo_client_flags = '' a:443 ,,b:443''" by (simp add: demo_client_flags_def)
  then have "dispatch demo_client_flags b = RunMultiPath (NewMultiPathClient '':1080''
         [tls_endpoint demo_client_flags ''a:443'', tls_endpoint demo_client_flags ''b:443''])" for b
    by (simp add: dispatch_def dispatch_client_def launch_multipath_def demo_remotes)
      (simp add: demo_client_flags_def default_flags_def)
  moreover have "fl_key demo_client_flags = ''k''" "fl_transport demo_client_flags = ''tls''"
    "fl_utls demo_client_flags = False" "fl_frag demo_client_flags = 0"
    by (simp_all add: demo_client_flags_def default_flags_def)
  ultimately show ?thesis
    by (simp add: main_def demo_aes_def discover_raw_def setup_iptables_def)
qed


text \<open>
  The list of servers of \<open>-remotes\<close>: the addresses separated by commas, in order, with
  surrounding spaces removed and empty entries skipped, each with the endpoint settings
  of the flags.
\<close>

theorem remotes_parsed:
  assumes "entries \<noteq> []" and "\<forall>(i, a, j) \<in> set entries. (a = [] \<or> plain_word a) \<and> CHR '','' \<notin> set a"
  shows "remote_servers mk (Join (map (\<lambda>(i, a, j). spaces i @ a @ spaces j) entries) '','') =
    map mk (filter (\<lambda>a. a \<noteq> []) (map (\<lambda>(i, a, j). a) entries))"
proof -
  let ?pieces = "map (\<lambda>(i, a, j). spaces i @ a @ spaces j) entries"
  have "Split (CHR '','') (Join ?pieces '','') = ?pieces"
    using assms by (intro Split_Join) (auto simp: spaces_def)
  moreover have "map TrimSpace ?pieces = map (\<lambda>(i, a, j). a) entries"
  proof -
    have "TrimSpace (spaces i @ a @ spaces j) = a" if "(i, a, j) \<in> set entries" for i a j
      using assms(2) that by (intro TrimSpace_padded) auto
    then show ?thesis by auto
  qed
  ultimately show ?thesis by (simp add: remote_servers_def del: filter_map map_map)
qed

theorem remotes_parsed_witness:
  "remote_servers (tls_endpoint default_flags) (Join [spaces 1 @ ''a:443'' @ spaces 0, spaces 0 @ [] @ spaces 2] '','')
     = [tls_endpoint default_flags ''a:443'']"
  using remotes_parsed [of "[(1, ''a:443'', 0), (0, [], 2)]" "tls_endpoint default_flags"]
  by (simp add: plain_word_def plain_char_def)

lemma pad32_cong:
  assumes "take 32 k1 = take 32 k2"
  shows "pad32 (string_bytes k1) = pad32 (string_bytes k2)"
proof -
  have "pad32 (string_bytes k) = string_bytes (take 32 k) @ replicate (32 - length (take 32 k)) 0" for k
    by (simp add: pad32_def string_bytes_def take_map)
  with assms show ?thesis by (simp only:)
qed

text \<open>Dispatching reads the key only through the block cipher.\<close>

lemma dispatch_key: "dispatch (fl\<lparr>fl_key := k\<rparr>) block = dispatch fl block"
  by (simp add: dispatch_def dispatch_server_def dispatch_client_def launch_multipath_def raw_params_def
      rawValid_def tls_endpoint_def [abs_def] ws_endpoint_def [abs_def])

lemma dispatch_no_kcp:
  "fl_transport fl \<in> {''tls'', ''ws''} \<Longrightarrow> dispatch fl b1 = dispatch fl b2"
  by (auto simp: dispatch_def dispatch_server_def dispatch_client_def)

text \<open>
  (C38) The shared key plays no part in the TLS and WebSocket engines: with any two keys
  \<open>main\<close> starts the same engine with the same parameters. For the others the key is cut
  to its first 32 bytes, or filled up with zero bytes, so keys that agree there are the
  same key.
\<close>

theorem key_ignored_without_kcp:
  assumes "k1 \<noteq> []" and "k2 \<noteq> []" and "\<And>k. length k = 32 \<Longrightarrow> \<exists>b. aes k = Inr b"
  shows "(fl_transport fl \<in> {''tls'', ''ws''} \<longrightarrow>
           main aes env run w (fl\<lparr>fl_key := k1\<rparr>) = (main aes env run w (fl\<lparr>fl_key := k2\<rparr>) :: ('s, 'blk) main_result \<times> 'w))
    \<and> (take 32 k1 = take 32 k2 \<longrightarrow>
           main aes env run w (fl\<lparr>fl_key := k1\<rparr>) = (main aes env run w (fl\<lparr>fl_key := k2\<rparr>) :: ('s, 'blk) main_result \<times> 'w))"
proof (intro conjI impI)
  obtain b1 b2 where b: "aes (pad32 (string_bytes k1)) = Inr b1" "aes (pad32 (string_bytes k2)) = Inr b2"
    using assms(3) length_pad32 by metis
  have disc: "discover_raw env w (fl\<lparr>fl_key := k\<rparr>) =
      (case discover_raw env w fl of (Inl r, w1) \<Rightarrow> (Inl r, w1) | (Inr f, w1) \<Rightarrow> (Inr (f\<lparr>fl_key := k\<rparr>), w1))" for k
    by (auto simp: discover_raw_def fill_raw_def split: prod.splits sum.splits)
  have ipt: "setup_iptables run w1 (f\<lparr>fl_key := k\<rparr>) = setup_iptables run w1 f" for k w1 f
    by (simp add: setup_iptables_def)
  {
    assume t: "fl_transport fl \<in> {''tls'', ''ws''}"
    have "(dispatch fl b1 :: ('s, 'blk) launch) = dispatch fl b2" using t by (rule dispatch_no_kcp)
    with t show "main aes env run w (fl\<lparr>fl_key := k1\<rparr>) = (main aes env run w (fl\<lparr>fl_key := k2\<rparr>) :: ('s, 'blk) main_result \<times> 'w)"
      using b assms(1,2) by (auto simp: main_def discover_raw_def dispatch_key ipt Let_def)
  }
  assume "take 32 k1 = take 32 k2"
  then have "pad32 (string_bytes k1) = pad32 (string_bytes k2)" by (rule pad32_cong)
  moreover have "(dispatch (f\<lparr>fl_key := k1\<rparr>) b1 :: ('s, 'blk) launch) = dispatch (f\<lparr>fl_key := k2\<rparr>) b1" for f
    by (simp add: dispatch_key)
  ultimately show "main aes env run w (fl\<lparr>fl_key := k1\<rparr>) = (main aes env run w (fl\<lparr>fl_key := k2\<rparr>) :: ('s, 'blk) main_result \<times> 'w)"
    using b assms(1,2) by (auto simp: main_def disc ipt Let_def split: prod.splits sum.splits)
qed

theorem key_ignored_without_kcp_witness:
  "main demo_aes demo_os (\<lambda>w a. ((None, []), w)) False (demo_client_flags\<lparr>fl_key := ''a''\<rparr>) =
     (main demo_aes demo_os (\<lambda>w a. ((None, []), w)) False (demo_client_flags\<lparr>fl_key := ''b''\<rparr>)
        :: (nat, bytes) main_result \<times> bool)"
proof -
  have "fl_transport demo_client_flags \<in> {''tls'', ''ws''}" by (simp add: demo_client_flags_def)
  then show ?thesis
    by (rule key_ignored_without_kcp [THEN conjunct1, rule_format, rotated 3]) (simp_all add: demo_aes_def)
qed

text \<open>
  (C39) Firewall rules outlive a failed start: \<open>main\<close> installs them before it has checked
  the mode, the target, the listening address and the raw parameters, and \<open>log.Fatal\<close>
  then ends the process without the clean-up, which only a signal runs. So whenever a raw
  start whose port flag is set fails after discovery, and adding the rules worked, all
  three rules are left in the tables.
\<close>

theorem failed_start_leaves_rules:
  assumes "iptables_ok run tab" and "fl_key fl \<noteq> []" and "aes (pad32 (string_bytes (fl_key fl))) = Inr block"
    and "discover_raw env w fl = (Inr fl1, w1)"
    and "fl_transport fl = ''raw''" and "\<not> fl_noAutoIPT fl" and "fl_srcPort fl \<noteq> 0"
    and "Apply run w1 (NewIPTablesManager (word_of_int (fl_srcPort fl))) = (None, w2)"
    and "dispatch fl1 block = (Exit r :: ('s, 'blk) launch)"
  shows "\<exists>res. main aes env run w fl = (res :: ('s, 'blk) main_result, w2) \<and> mr_launch res = Exit r
    \<and> (\<forall>rule \<in> set (rules (NewIPTablesManager (word_of_int (fl_srcPort fl)))). args rule \<in> set (tab w2 (table rule)))"
proof -
  note keep = discover_raw_keeps [OF assms(4)]
  have "setup_iptables run w1 fl1 = (Some (NewIPTablesManager (word_of_int (fl_srcPort fl))), w2)"
    using assms(5-8) keep by (simp add: setup_iptables_def)
  with assms(2-4,9) have "\<exists>res. main aes env run w fl = (res :: ('s, 'blk) main_result, w2) \<and> mr_launch res = Exit r"
    by (simp add: main_def)
  with apply_success_present [OF assms(1,8)] show ?thesis by blast
qed

definition demo_raw_flags :: flags where
  "demo_raw_flags = default_flags\<lparr>fl_mode := ''sever'', fl_key := ''k'', fl_transport := ''raw'', fl_dstIP := ''9.9.9.9'',
     fl_srcMAC := ''m'', fl_gwMAC := ''m'', fl_srcIP := ''10.0.0.2'', fl_iface := ''eth0'', fl_srcPort := 4000\<rparr>"

definition no_os :: "'w os_env" where
  "no_os = \<lparr>exec_output = (\<lambda>w cmd. (Inl EOF, w)), exec_run = (\<lambda>w cmd. w), interface_hw = (\<lambda>w i. Inl EOF),
     arp_table = (\<lambda>w. None)\<rparr>"

theorem failed_start_leaves_rules_witness:
  "\<exists>res w2. main demo_aes no_os demo_iptables (\<lambda>t. []) demo_raw_flags = (res :: (nat, bytes) main_result, w2)
     \<and> mr_launch res = Exit BadMode
     \<and> (\<forall>rule \<in> set (rules (NewIPTablesManager 4000)). args rule \<in> set (w2 (table rule)))"
proof -
  obtain w2 where a: "Apply demo_iptables (\<lambda>t. []) (NewIPTablesManager 4000) = (None, w2)" using demo_apply by blast
  have fl: "fl_key demo_raw_flags \<noteq> []" "fl_transport demo_raw_flags = ''raw''" "\<not> fl_noAutoIPT demo_raw_flags"
    "fl_srcPort demo_raw_flags \<noteq> 0" "fl_srcPort demo_raw_flags = 4000"
    "discover_raw no_os (\<lambda>t. []) demo_raw_flags = (Inr demo_raw_flags, \<lambda>t. [])"
    "\<And>b. dispatch demo_raw_flags b = (Exit BadMode :: (nat, bytes) launch)"
    by (simp_all add: demo_raw_flags_def default_flags_def discover_raw_def dispatch_def)
  have "demo_aes (pad32 (string_bytes (fl_key demo_raw_flags))) = Inr (pad32 (string_bytes (fl_key demo_raw_flags)))"
    by (simp add: demo_aes_def)
  from failed_start_leaves_rules [where tab = id and ?w1.0 = "\<lambda>t. []" and ?fl1.0 = demo_raw_flags and aes = demo_aes
      and env = no_os and r = BadMode,
      OF demo_iptables_ok fl(1) this fl(6,2,3,4) _ fl(7)] a show ?thesis
    by (auto simp: fl(5))
qed

text \<open>
  Port flags are reduced modulo 65536 after they have been checked: \<open>rawValid\<close> tests
  the flag, the engine and the firewall rules use its low 16 bits. So the flag 65536
  passes the test and starts a raw engine on port 0.
\<close>

theorem raw_port_truncated:
  "uint (RP_SrcPort (raw_params fl)) = fl_srcPort fl mod 65536
   \<and> uint (RP_DstPort (raw_params fl)) = fl_dstPort fl mod 65536
   \<and> (\<exists>fl. rawValid fl \<and> dispatch (fl\<lparr>fl_mode := ''server'', fl_transport := ''raw'', fl_target := ''t:1''\<rparr>) block
          = (RunServerRaw ''t:1'' block (raw_params fl) :: ('s, 'blk) launch)
        \<and> RP_SrcPort (raw_params fl) = 0)"
proof (intro conjI)
  show "uint (RP_SrcPort (raw_params fl)) = fl_srcPort fl mod 65536"
    "uint (RP_DstPort (raw_params fl)) = fl_dstPort fl mod 65536"
    by (simp_all add: raw_params_def uint_word_of_int)
  let ?fl = "demo_raw_flags\<lparr>fl_srcPort := 65536, fl_dstPort := 5000\<rparr>"
  have "rawValid ?fl" by (simp add: rawValid_def demo_raw_flags_def)
  moreover have "(word_of_int 65536 :: u16) = 0" by simp
  ultimately show "\<exists>fl. rawValid fl \<and> dispatch (fl\<lparr>fl_mode := ''server'', fl_transport := ''raw'', fl_target := ''t:1''\<rparr>) block
          = (RunServerRaw ''t:1'' block (raw_params fl) :: ('s, 'blk) launch)
        \<and> RP_SrcPort (raw_params fl) = 0"
    by (intro exI [of _ ?fl]) (simp add: dispatch_def dispatch_server_def raw_params_def rawValid_def)
qed

end
