(* ===== verification/Pipe.thy ===== *)
theory Pipe
  imports Tunnel_Prelude
begin

text \<open>
  The function \<open>pipe\<close> of src/t2tunnel/engine.go as a step relation. The two endpoints
  are named by booleans, \<open>True\<close> for \<open>a\<close>; goroutine \<open>g\<close> copies from endpoint \<open>\<not> g\<close>
  into endpoint \<open>g\<close>, so \<open>True\<close> runs \<open>io.Copy(a, b)\<close>. The program counter walks through the
  body: copying, at \<open>once.Do\<close>, inside \<open>closeBoth\<close> before each of its two calls, and after
  the deferred \<open>wg.Done\<close>. A goroutine that finds \<open>closeBoth\<close> running waits for it, as
  \<open>sync.Once\<close> prescribes.
\<close>

datatype pc = Copying | AtOnce | ClosingA | ClosingB | Finished

record pipe_state =
  pcs :: "bool \<Rightarrow> pc"
  once_started :: bool
  once_done :: bool
  closes :: "bool \<Rightarrow> nat"
  pending :: "bool \<Rightarrow> bytes"
  written :: "bool \<Rightarrow> bytes"

text \<open>
  The outside: \<open>input e\<close> is what endpoint \<open>e\<close> will send, \<open>ends e\<close> whether reading it then
  reports an end or an error (otherwise the read blocks), \<open>broken e\<close> whether writing to
  it fails.
\<close>

record pipe_world =
  input :: "bool \<Rightarrow> bytes"
  ends :: "bool \<Rightarrow> bool"
  broken :: "bool \<Rightarrow> bool"

definition pipe_init :: "pipe_world \<Rightarrow> pipe_state" where
  "pipe_init env = \<lparr>pcs = (\<lambda>g. Copying), once_started = False, once_done = False,
     closes = (\<lambda>e. 0), pending = input env, written = (\<lambda>e. [])\<rparr>"

text \<open>
  \<open>io.Copy\<close> moves non-empty chunks; it stops when the source ends or was closed by the
  other goroutine, or when a write fails, possibly after part of the chunk.
\<close>

inductive pipe_step :: "pipe_world \<Rightarrow> pipe_state \<Rightarrow> pipe_state \<Rightarrow> bool" for env where
  chunk: "\<lbrakk>pcs s g = Copying; pending s (\<not> g) = x @ rest; x \<noteq> []; closes s g = 0; \<not> broken env g\<rbrakk> \<Longrightarrow>
    pipe_step env s (s\<lparr>pending := (pending s)(\<not> g := rest), written := (written s)(g := written s g @ x)\<rparr>)"
| read_end: "\<lbrakk>pcs s g = Copying; pending s (\<not> g) = [] \<and> ends env (\<not> g) \<or> 0 < closes s (\<not> g)\<rbrakk> \<Longrightarrow>
    pipe_step env s (s\<lparr>pcs := (pcs s)(g := AtOnce)\<rparr>)"
| write_end: "\<lbrakk>pcs s g = Copying; pending s (\<not> g) = x @ rest; x \<noteq> []; 0 < closes s g \<or> broken env g; prefix y x\<rbrakk> \<Longrightarrow>
    pipe_step env s (s\<lparr>pcs := (pcs s)(g := AtOnce), pending := (pending s)(\<not> g := rest),
      written := (written s)(g := written s g @ y)\<rparr>)"
| once_first: "\<lbrakk>pcs s g = AtOnce; \<not> once_started s\<rbrakk> \<Longrightarrow>
    pipe_step env s (s\<lparr>pcs := (pcs s)(g := ClosingA), once_started := True\<rparr>)"
| close_a: "pcs s g = ClosingA \<Longrightarrow>
    pipe_step env s (s\<lparr>pcs := (pcs s)(g := ClosingB), closes := (closes s)(True := Suc (closes s True))\<rparr>)"
| close_b: "pcs s g = ClosingB \<Longrightarrow>
    pipe_step env s (s\<lparr>pcs := (pcs s)(g := Finished), once_done := True,
      closes := (closes s)(False := Suc (closes s False))\<rparr>)"
| once_later: "\<lbrakk>pcs s g = AtOnce; once_done s\<rbrakk> \<Longrightarrow>
    pipe_step env s (s\<lparr>pcs := (pcs s)(g := Finished)\<rparr>)"

text \<open>\<open>wg.Wait\<close> returns when both goroutines are done.\<close>

definition pipe_returned :: "pipe_state \<Rightarrow> bool" where
  "pipe_returned s \<longleftrightarrow> pcs s True = Finished \<and> pcs s False = Finished"

subsection \<open>The invariant\<close>

definition closer :: "pipe_state \<Rightarrow> bool \<Rightarrow> bool" where
  "closer s g \<longleftrightarrow> pcs s g = ClosingA \<or> pcs s g = ClosingB"

text \<open>
  The counters are determined by how far \<open>closeBoth\<close> has got, and at most one goroutine
  is inside it.
\<close>

definition close_inv :: "pipe_state \<Rightarrow> bool" where
  "close_inv s \<longleftrightarrow>
     (once_started s \<longleftrightarrow> once_done s \<or> closer s True \<or> closer s False)
   \<and> \<not> (closer s True \<and> closer s False)
   \<and> (once_done s \<longrightarrow> \<not> closer s True \<and> \<not> closer s False)
   \<and> (\<forall>g. pcs s g = Finished \<longrightarrow> once_done s)
   \<and> closes s True = (if once_done s \<or> pcs s True = ClosingB \<or> pcs s False = ClosingB then 1 else 0)
   \<and> closes s False = (if once_done s then 1 else 0)"

definition data_ok :: "pipe_world \<Rightarrow> pipe_state \<Rightarrow> bool \<Rightarrow> bool" where
  "data_ok env s g \<longleftrightarrow>
     (\<exists>consumed. input env (\<not> g) = consumed @ pending s (\<not> g) \<and> prefix (written s g) consumed
        \<and> (pcs s g = Copying \<longrightarrow> written s g = consumed))"

definition data_inv :: "pipe_world \<Rightarrow> pipe_state \<Rightarrow> bool" where
  "data_inv env s \<longleftrightarrow> (\<forall>g. data_ok env s g)"

lemma pipe_init_inv: "close_inv (pipe_init env)" "data_inv env (pipe_init env)"
  by (simp_all add: close_inv_def closer_def data_inv_def data_ok_def pipe_init_def)

lemma close_inv_step: "pipe_step env s s' \<Longrightarrow> close_inv s \<Longrightarrow> close_inv s'"
proof (induction rule: pipe_step.induct)
  case (chunk s g x rest)
  then show ?case by (simp add: close_inv_def closer_def)
next
  case (read_end s g)
  then show ?case by (cases g) (auto simp: close_inv_def closer_def)
next
  case (write_end s g x rest y)
  then show ?case by (cases g) (auto simp: close_inv_def closer_def)
next
  case (once_first s g)
  then show ?case by (cases g) (auto simp: close_inv_def closer_def)
next
  case (close_a s g)
  then show ?case by (cases g) (auto simp: close_inv_def closer_def split: if_splits)
next
  case (close_b s g)
  then show ?case by (cases g) (auto simp: close_inv_def closer_def split: if_splits)
next
  case (once_later s g)
  then show ?case by (cases g) (auto simp: close_inv_def closer_def split: if_splits)
qed

lemma data_ok_consumed:
  assumes "data_ok env s g" and "pcs s g = Copying" and "pending s (\<not> g) = x @ rest"
  shows "input env (\<not> g) = (written s g @ x) @ rest"
  using assms by (auto simp: data_ok_def)

lemma data_inv_frame:
  assumes "data_inv env s" and "pending s' = pending s" and "written s' = written s"
    and "\<And>g. pcs s' g = Copying \<Longrightarrow> pcs s g = Copying"
  shows "data_inv env s'"
  using assms unfolding data_inv_def data_ok_def by metis

lemma data_inv_step: "pipe_step env s s' \<Longrightarrow> data_inv env s \<Longrightarrow> data_inv env s'"
proof (induction rule: pipe_step.induct)
  case (chunk s g x rest)
  then have ok: "data_ok env s h" for h by (simp add: data_inv_def)
  note total = data_ok_consumed [OF ok chunk(1,2)]
  show ?case unfolding data_inv_def
  proof
    fix h
    show "data_ok env (s\<lparr>pending := (pending s)(\<not> g := rest), written := (written s)(g := written s g @ x)\<rparr>) h"
      using ok [of h] total by (cases "h = g") (auto simp: data_ok_def)
  qed
next
  case (write_end s g x rest y)
  then have ok: "data_ok env s h" for h by (simp add: data_inv_def)
  note total = data_ok_consumed [OF ok write_end(1,2)]
  have "prefix (written s g @ y) (written s g @ x)" using write_end(5) by simp
  show ?case unfolding data_inv_def
  proof
    fix h
    show "data_ok env (s\<lparr>pcs := (pcs s)(g := AtOnce), pending := (pending s)(\<not> g := rest),
        written := (written s)(g := written s g @ y)\<rparr>) h"
      using ok [of h] total write_end(5) by (cases "h = g") (auto simp: data_ok_def)
  qed
qed (erule data_inv_frame; simp split: if_splits)+

lemma pipe_run_inv:
  "(pipe_step env)\<^sup>*\<^sup>* (pipe_init env) s \<Longrightarrow> close_inv s \<and> data_inv env s"
  by (induction rule: rtranclp_induct) (auto simp: pipe_init_inv intro: close_inv_step data_inv_step)

subsection \<open>Termination and progress\<close>

fun pc_rank :: "pc \<Rightarrow> nat" where
  "pc_rank Copying = 4"
| "pc_rank AtOnce = 3"
| "pc_rank ClosingA = 2"
| "pc_rank ClosingB = 1"
| "pc_rank Finished = 0"

definition pipe_measure :: "pipe_state \<Rightarrow> nat" where
  "pipe_measure s = length (pending s True) + length (pending s False)
     + pc_rank (pcs s True) + pc_rank (pcs s False)"

lemma pipe_step_decreases: "pipe_step env s s' \<Longrightarrow> pipe_measure s' < pipe_measure s"
proof (induction rule: pipe_step.induct)
  case (chunk s g x rest)
  then show ?case by (cases g) (auto simp: pipe_measure_def)
next
  case (write_end s g x rest y)
  then show ?case by (cases g) (auto simp: pipe_measure_def)
next
  case (read_end s g)
  then show ?case by (cases g) (auto simp: pipe_measure_def)
next
  case (once_first s g)
  then show ?case by (cases g) (auto simp: pipe_measure_def)
next
  case (close_a s g)
  then show ?case by (cases g) (auto simp: pipe_measure_def)
next
  case (close_b s g)
  then show ?case by (cases g) (auto simp: pipe_measure_def)
next
  case (once_later s g)
  then show ?case by (cases g) (auto simp: pipe_measure_def)
qed

text \<open>A goroutine that has left \<open>io.Copy\<close> can always be brought to its end.\<close>

lemma pipe_closing_progress:
  assumes "close_inv s" and "pcs s g \<noteq> Copying" and "pcs s g \<noteq> Finished"
  shows "\<exists>s'. pipe_step env s s'"
proof (cases "\<exists>h. closer s h")
  case True
  then obtain h where "pcs s h = ClosingA \<or> pcs s h = ClosingB" by (auto simp: closer_def)
  then show ?thesis by (metis pipe_step.close_a pipe_step.close_b)
next
  case False
  with assms(2,3) have at: "pcs s g = AtOnce" by (cases "pcs s g") (auto simp: closer_def)
  have "once_started s \<longleftrightarrow> once_done s" using assms(1) False by (auto simp: close_inv_def)
  with at show ?thesis by (metis pipe_step.once_first pipe_step.once_later)
qed

lemma pipe_copy_progress:
  assumes "pcs s g = Copying" and "ends env (\<not> g) \<or> 0 < closes s (\<not> g)"
  shows "\<exists>s'. pipe_step env s s'"
proof (cases "pending s (\<not> g) = [] \<or> 0 < closes s (\<not> g)")
  case True
  with assms show ?thesis by (blast intro: pipe_step.read_end)
next
  case False
  then have "pending s (\<not> g) = pending s (\<not> g) @ []" "pending s (\<not> g) \<noteq> []" by simp_all
  with assms(1) show ?thesis
    by (cases "0 < closes s g \<or> broken env g")
      (blast intro: pipe_step.write_end, metis pipe_step.chunk gr0I)
qed

lemma pipe_progress:
  assumes inv: "close_inv s" and "ends env True \<or> ends env False" and "\<not> pipe_returned s"
  shows "\<exists>s'. pipe_step env s s'"
proof (cases "\<exists>g. pcs s g \<noteq> Copying \<and> pcs s g \<noteq> Finished")
  case True
  with inv pipe_closing_progress show ?thesis by blast
next
  case False
  from assms(2) obtain e where e: "ends env e" by blast
  show ?thesis
  proof (cases "once_done s")
    case True
    then have "0 < closes s h" for h using inv by (cases h) (auto simp: close_inv_def)
    moreover obtain g where "pcs s g = Copying"
      using False assms(3) by (auto simp: pipe_returned_def)
    ultimately show ?thesis using pipe_copy_progress by blast
  next
    case not_done: False
    then have "pcs s (\<not> e) = Copying" using False inv by (auto simp: close_inv_def)
    then show ?thesis using pipe_copy_progress [of s "\<not> e" env] e by simp
  qed
qed

lemma pipe_writes_prefix:
  assumes "(pipe_step env)\<^sup>*\<^sup>* (pipe_init env) s"
  shows "prefix (written s g) (input env (\<not> g))"
  using pipe_run_inv [OF assms] unfolding data_inv_def data_ok_def by (metis prefix_order.trans prefixI)


text \<open>A run that copies one message from \<open>b\<close> to \<open>a\<close>; \<open>b\<close> ends, \<open>a\<close> never does.\<close>

definition demo_pipe :: pipe_world where
  "demo_pipe = \<lparr>input = (\<lambda>e. if e then [] else [7, 8]), ends = (\<lambda>e. \<not> e), broken = (\<lambda>e. False)\<rparr>"

definition demo_end :: pipe_state where
  "demo_end = \<lparr>pcs = (\<lambda>g. Finished), once_started = True, once_done = True, closes = (\<lambda>e. 1),
     pending = (\<lambda>e. []), written = (\<lambda>e. if e then [7, 8] else [])\<rparr>"

lemma bool_fun_eq: "f = (g :: bool \<Rightarrow> 'a) \<longleftrightarrow> f True = g True \<and> f False = g False"
  by (auto intro!: ext) (metis (full_types))

definition pipe_mk :: "pc \<Rightarrow> pc \<Rightarrow> bool \<Rightarrow> bool \<Rightarrow> nat \<Rightarrow> nat \<Rightarrow> bytes \<Rightarrow> bytes \<Rightarrow> pipe_state" where
  "pipe_mk p q st d ca cb pend wr = \<lparr>pcs = (\<lambda>g. if g then p else q), once_started = st, once_done = d,
     closes = (\<lambda>e. if e then ca else cb), pending = (\<lambda>e. if e then [] else pend),
     written = (\<lambda>e. if e then wr else [])\<rparr>"

lemma demo_pipe_steps:
  "pipe_step demo_pipe (pipe_mk Copying Copying False False 0 0 [7, 8] []) (pipe_mk Copying Copying False False 0 0 [] [7, 8])"
  "pipe_step demo_pipe (pipe_mk Copying Copying False False 0 0 [] [7, 8]) (pipe_mk AtOnce Copying False False 0 0 [] [7, 8])"
  "pipe_step demo_pipe (pipe_mk AtOnce Copying False False 0 0 [] [7, 8]) (pipe_mk ClosingA Copying True False 0 0 [] [7, 8])"
  "pipe_step demo_pipe (pipe_mk ClosingA Copying True False 0 0 [] [7, 8]) (pipe_mk ClosingB Copying True False 1 0 [] [7, 8])"
  "pipe_step demo_pipe (pipe_mk ClosingB Copying True False 1 0 [] [7, 8]) (pipe_mk Finished Copying True True 1 1 [] [7, 8])"
  "pipe_step demo_pipe (pipe_mk Finished Copying True True 1 1 [] [7, 8]) (pipe_mk Finished AtOnce True True 1 1 [] [7, 8])"
  "pipe_step demo_pipe (pipe_mk Finished AtOnce True True 1 1 [] [7, 8]) (pipe_mk Finished Finished True True 1 1 [] [7, 8])"
  using pipe_step.chunk [of "pipe_mk Copying Copying False False 0 0 [7, 8] []" True "[7, 8]" "[]" demo_pipe]
    pipe_step.read_end [of "pipe_mk Copying Copying False False 0 0 [] [7, 8]" True demo_pipe]
    pipe_step.once_first [of "pipe_mk AtOnce Copying False False 0 0 [] [7, 8]" True demo_pipe]
    pipe_step.close_a [of "pipe_mk ClosingA Copying True False 0 0 [] [7, 8]" True demo_pipe]
    pipe_step.close_b [of "pipe_mk ClosingB Copying True False 1 0 [] [7, 8]" True demo_pipe]
    pipe_step.read_end [of "pipe_mk Finished Copying True True 1 1 [] [7, 8]" False demo_pipe]
    pipe_step.once_later [of "pipe_mk Finished AtOnce True True 1 1 [] [7, 8]" False demo_pipe]
  by (simp_all add: pipe_mk_def demo_pipe_def bool_fun_eq fun_upd_def if_distrib cong: if_cong)

lemma demo_pipe_run: "(pipe_step demo_pipe)\<^sup>*\<^sup>* (pipe_init demo_pipe) demo_end"
proof -
  have start: "pipe_init demo_pipe = pipe_mk Copying Copying False False 0 0 [7, 8] []"
    and "end": "demo_end = pipe_mk Finished Finished True True 1 1 [] [7, 8]"
    by (simp_all add: pipe_init_def demo_pipe_def pipe_mk_def demo_end_def bool_fun_eq)
  show ?thesis
    unfolding start "end"
    by (meson demo_pipe_steps converse_rtranclp_into_rtranclp rtranclp.rtrancl_refl)
qed


subsection \<open>Nothing is lost when one side ends\<close>

definition one_sided :: "bool \<Rightarrow> pipe_world \<Rightarrow> pipe_state \<Rightarrow> bool" where
  "one_sided e env s \<longleftrightarrow>
     (if pcs s (\<not> e) = Copying
      then pcs s e = Copying \<and> \<not> once_started s \<and> \<not> once_done s \<and> (\<forall>h. closes s h = 0)
      else pending s e = [] \<and> written s (\<not> e) = input env e)"

lemma one_sided_step:
  assumes "pipe_step env s s'" and "one_sided e env s" and "data_inv env s"
    and quiet: "\<not> ends env (\<not> e)" "\<And>h. \<not> broken env h"
  shows "one_sided e env s'"
  using assms(1-3)
proof (induction rule: pipe_step.induct)
  case (chunk s g x rest)
  then show ?case by (cases "g = e") (auto simp: one_sided_def split: if_splits)
next
  case (read_end s g)
  have "data_ok env s (\<not> e)" using read_end by (simp add: data_inv_def)
  with read_end quiet show ?case
    by (cases "g = e") (auto simp: one_sided_def data_ok_def split: if_splits)
next
  case (write_end s g x rest y)
  with quiet show ?case by (cases "g = e") (auto simp: one_sided_def split: if_splits)
next
  case (once_first s g)
  then show ?case by (cases "g = e") (auto simp: one_sided_def split: if_splits)
next
  case (close_a s g)
  then show ?case by (cases "g = e") (auto simp: one_sided_def split: if_splits)
next
  case (close_b s g)
  then show ?case by (cases "g = e") (auto simp: one_sided_def split: if_splits)
next
  case (once_later s g)
  then show ?case by (cases "g = e") (auto simp: one_sided_def split: if_splits)
qed

lemma pipe_forwards_all:
  assumes "\<not> ends env (\<not> e)" and "\<And>h. \<not> broken env h"
    and "(pipe_step env)\<^sup>*\<^sup>* (pipe_init env) s" and "pipe_returned s"
  shows "written s (\<not> e) = input env e"
proof -
  have "one_sided e env s \<and> data_inv env s"
    using assms(3)
  proof (induction rule: rtranclp_induct)
    case base
    show ?case using pipe_init_inv by (simp add: one_sided_def pipe_init_def)
  next
    case (step s s')
    then show ?case using one_sided_step [OF _ _ _ assms(1,2)] data_inv_step by blast
  qed
  moreover have "pcs s (\<not> e) = Finished" using assms(4) by (cases e) (auto simp: pipe_returned_def)
  ultimately show ?thesis by (simp add: one_sided_def)
qed

text \<open>
  (C27) If only endpoint \<open>e\<close> ends and no write fails, then when \<open>pipe\<close> has returned,
  everything \<open>e\<close> sent was written to the other endpoint.
\<close>

theorem pipe_lossless:
  assumes "\<not> ends env (\<not> e)" and "\<And>h. \<not> broken env h"
    and "(pipe_step env)\<^sup>*\<^sup>* (pipe_init env) s" and "pipe_returned s"
  shows "written s (\<not> e) = input env e"
  using assms by (rule pipe_forwards_all)

theorem pipe_lossless_witness: "written demo_end True = [7, 8]"
proof -
  have "\<not> ends demo_pipe (\<not> False)" "\<And>h. \<not> broken demo_pipe h" "input demo_pipe False = [7, 8]"
    by (simp_all add: demo_pipe_def)
  moreover have "pipe_returned demo_end" by (simp add: pipe_returned_def demo_end_def)
  ultimately show ?thesis using pipe_lossless [of demo_pipe False, OF _ _ demo_pipe_run] by simp
qed

subsection \<open>Half-closed connections\<close>

text \<open>The goroutine that found the end runs \<open>closeBoth\<close>; the other then has nothing to read.\<close>

lemma pipe_close_both:
  assumes "pcs s g = AtOnce" and "pcs s (\<not> g) = Copying" and "\<not> once_started s" and "\<forall>e. closes s e = 0"
  shows "\<exists>s'. (pipe_step env)\<^sup>*\<^sup>* s s' \<and> pipe_returned s' \<and> written s' = written s"
proof -
  let ?s1 = "s\<lparr>pcs := (pcs s)(g := ClosingA), once_started := True\<rparr>"
  let ?s2 = "?s1\<lparr>pcs := (pcs ?s1)(g := ClosingB), closes := (closes ?s1)(True := Suc (closes ?s1 True))\<rparr>"
  let ?s3 = "?s2\<lparr>pcs := (pcs ?s2)(g := Finished), once_done := True,
    closes := (closes ?s2)(False := Suc (closes ?s2 False))\<rparr>"
  let ?s4 = "?s3\<lparr>pcs := (pcs ?s3)(\<not> g := AtOnce)\<rparr>"
  let ?s5 = "?s4\<lparr>pcs := (pcs ?s4)(\<not> g := Finished)\<rparr>"
  have "pipe_step env s ?s1" using assms by (intro pipe_step.once_first)
  moreover have "pipe_step env ?s1 ?s2" by (intro pipe_step.close_a) simp
  moreover have "pipe_step env ?s2 ?s3" by (intro pipe_step.close_b) simp
  moreover have "pipe_step env ?s3 ?s4" using assms by (intro pipe_step.read_end) (cases g; simp)+
  moreover have "pipe_step env ?s4 ?s5" by (intro pipe_step.once_later) simp_all
  ultimately have "(pipe_step env)\<^sup>*\<^sup>* s ?s5"
    by (meson converse_rtranclp_into_rtranclp rtranclp.rtrancl_refl)
  moreover have "pipe_returned ?s5" by (cases g) (simp_all add: pipe_returned_def)
  moreover have "written ?s5 = written s" by simp
  ultimately show ?thesis by blast
qed

lemma pipe_half_close_run:
  assumes "ends env e" and "\<not> broken env (\<not> e)"
  shows "\<exists>s. (pipe_step env)\<^sup>*\<^sup>* (pipe_init env) s \<and> pipe_returned s
    \<and> written s (\<not> e) = input env e \<and> written s e = []"
proof -
  let ?s0 = "pipe_init env"
  let ?s1 = "?s0\<lparr>pending := (pending ?s0)(e := []), written := (written ?s0)(\<not> e := input env e)\<rparr>"
  let ?s2 = "?s1\<lparr>pcs := (pcs ?s1)(\<not> e := AtOnce)\<rparr>"
  have copied: "(pipe_step env)\<^sup>*\<^sup>* ?s0 ?s1"
  proof (cases "input env e = []")
    case True
    then have "?s1 = ?s0" by (simp add: pipe_init_def fun_eq_iff)
    then show ?thesis by simp
  next
    case False
    then show ?thesis
      using pipe_step.chunk [of ?s0 "\<not> e" "input env e" "[]" env] assms(2) by (simp add: pipe_init_def)
  qed
  have "pipe_step env ?s1 ?s2" using assms by (intro pipe_step.read_end) (simp_all add: pipe_init_def)
  moreover obtain s where "(pipe_step env)\<^sup>*\<^sup>* ?s2 s" "pipe_returned s" "written s = written ?s2"
    using pipe_close_both [of ?s2 "\<not> e" env] by (auto simp: pipe_init_def)
  ultimately show ?thesis using copied
    by (intro exI [of _ s]) (auto simp: pipe_init_def intro: rtranclp_trans converse_rtranclp_into_rtranclp)
qed

text \<open>
  (C28) A half-closed connection is cut: whatever the other side still has to send, when
  one side ends after its request, \<open>pipe\<close> has a run in which the whole request is forwarded
  and both connections are closed before anything of the answer is.
\<close>

theorem pipe_half_close_truncates:
  assumes "ends env e" and "\<not> broken env (\<not> e)"
  shows "\<exists>s. (pipe_step env)\<^sup>*\<^sup>* (pipe_init env) s \<and> pipe_returned s
    \<and> written s (\<not> e) = input env e \<and> written s e = []"
  using assms by (rule pipe_half_close_run)

theorem pipe_half_close_truncates_witness:
  "\<exists>s. (pipe_step \<lparr>input = (\<lambda>e. if e then [1] else [2, 3]), ends = (\<lambda>e. True), broken = (\<lambda>e. False)\<rparr>)\<^sup>*\<^sup>*
      (pipe_init \<lparr>input = (\<lambda>e. if e then [1] else [2, 3]), ends = (\<lambda>e. True), broken = (\<lambda>e. False)\<rparr>) s
     \<and> pipe_returned s \<and> written s False = [1] \<and> written s True = []"
  using pipe_half_close_truncates
    [of "\<lparr>input = (\<lambda>e. if e then [1] else [2, 3]), ends = (\<lambda>e. True), broken = (\<lambda>e. False)\<rparr>" True]
  by simp

end
