(* ===== verification/Panel_Auth.thy ===== *)
theory Panel_Auth
  imports Go_Strings
begin

text \<open>
  The account and the login sessions of src/t2tunnel/webpanel/panel.go: \<open>DB\<close>,
  \<open>Sessions\<close> and their operations. \<open>crypto/rand\<close>, SHA-256, JSON and the file system are
  the record \<open>panel_env\<close>; a world \<open>'w\<close> is threaded through what they change.
\<close>

record DB =
  User :: string
  PassHash :: string
  Salt :: string
  db_path :: string

record 'w panel_env =
  rand_read :: "'w \<Rightarrow> nat \<Rightarrow> bytes \<times> 'w"
  sha256 :: "bytes \<Rightarrow> bytes"
  read_file :: "'w \<Rightarrow> string \<Rightarrow> string option"
  write_file :: "'w \<Rightarrow> string \<Rightarrow> string \<Rightarrow> go_error option \<times> 'w"
  json_marshal :: "DB \<Rightarrow> string"
  json_unmarshal :: "string \<Rightarrow> DB \<Rightarrow> DB"
  clock :: "'w \<Rightarrow> time"

definition go_bytes :: "string \<Rightarrow> bytes" where
  "go_bytes s = map (\<lambda>c. of_nat (of_char c)) s"

definition loadDB :: "'w panel_env \<Rightarrow> 'w \<Rightarrow> string \<Rightarrow> DB \<times> bool" where
  "loadDB env w path =
     (let db = \<lparr>User = ''admin'', PassHash = [], Salt = [], db_path = path\<rparr>
      in case read_file env w path of
           None \<Rightarrow> (db, False)
         | Some b \<Rightarrow>
             (let db1 = (json_unmarshal env b db)\<lparr>db_path := path\<rparr> in (db1, PassHash db1 \<noteq> [])))"

definition save :: "'w panel_env \<Rightarrow> 'w \<Rightarrow> DB \<Rightarrow> go_error option \<times> 'w" where
  "save env w d = write_file env w (db_path d) (json_marshal env d)"

definition randHex :: "'w panel_env \<Rightarrow> 'w \<Rightarrow> nat \<Rightarrow> string \<times> 'w" where
  "randHex env w n = (case rand_read env w n of (b, w1) \<Rightarrow> (hex_encode b, w1))"

definition hashPw :: "'w panel_env \<Rightarrow> string \<Rightarrow> string \<Rightarrow> string" where
  "hashPw env salt pw = hex_encode (sha256 env (go_bytes (salt @ '':'' @ pw)))"

definition setPassword :: "'w panel_env \<Rightarrow> 'w \<Rightarrow> DB \<Rightarrow> string \<Rightarrow> DB \<times> 'w" where
  "setPassword env w d pw =
     (case randHex env w 16 of
        (salt, w1) \<Rightarrow> (d\<lparr>Salt := salt, PassHash := hashPw env salt pw\<rparr>, w1))"

text \<open>\<open>subtle.ConstantTimeCompare\<close>: 1 if the arguments are equal, else 0.\<close>

definition ConstantTimeCompare :: "bytes \<Rightarrow> bytes \<Rightarrow> nat" where
  "ConstantTimeCompare x y =
     (if length x \<noteq> length y then 0
      else if fold (\<lambda>(a, b) v. v OR (a XOR b)) (zip x y) (0 :: byte) = 0 then 1 else 0)"

definition check :: "'w panel_env \<Rightarrow> DB \<Rightarrow> string \<Rightarrow> string \<Rightarrow> bool" where
  "check env d user pw =
     (if ConstantTimeCompare (go_bytes user) (go_bytes (User d)) \<noteq> 1 then False
      else let want = hex_decode (PassHash d); got = hex_decode (hashPw env (Salt d) pw)
        in ConstantTimeCompare want got = 1)"

record Sessions =
  s_m :: "string \<rightharpoonup> time"

definition newSessions :: Sessions where
  "newSessions = \<lparr>s_m = Map.empty\<rparr>"

abbreviation hour :: duration where
  "hour \<equiv> 3600 * second"

definition issue_session :: "Sessions \<Rightarrow> string \<Rightarrow> time \<Rightarrow> Sessions" where
  "issue_session s tok now = s\<lparr>s_m := (s_m s)(tok \<mapsto> now + 8 * hour)\<rparr>"

definition create :: "'w panel_env \<Rightarrow> 'w \<Rightarrow> Sessions \<Rightarrow> string \<times> Sessions \<times> 'w" where
  "create env w s =
     (case randHex env w 32 of (tok, w1) \<Rightarrow> (tok, issue_session s tok (clock env w1), w1))"

definition valid :: "Sessions \<Rightarrow> time \<Rightarrow> string \<Rightarrow> bool \<times> Sessions" where
  "valid s now tok =
     (if tok = [] then (False, s)
      else case s_m s tok of
             None \<Rightarrow> (False, s\<lparr>s_m := (s_m s)(tok := None)\<rparr>)
           | Some exp \<Rightarrow>
               if exp < now then (False, s\<lparr>s_m := (s_m s)(tok := None)\<rparr>) else (True, s))"

definition drop_session :: "Sessions \<Rightarrow> string \<Rightarrow> Sessions" where
  "drop_session s tok = s\<lparr>s_m := (s_m s)(tok := None)\<rparr>"

text \<open>
  The start of the panel: an account is created on the first run, with a random
  password that is printed. \<open>Inl\<close> is \<open>log.Fatalf\<close>.
\<close>

definition panel_start ::
  "'w panel_env \<Rightarrow> 'w \<Rightarrow> string \<Rightarrow> (go_error + DB \<times> string option) \<times> 'w" where
  "panel_start env w path =
     (case loadDB env w path of
        (db, True) \<Rightarrow> (Inr (db, None), w)
      | (db, False) \<Rightarrow>
          (case randHex env w 9 of
             (pw, w1) \<Rightarrow>
               (case setPassword env w1 db pw of
                  (db1, w2) \<Rightarrow>
                    (case save env w2 db1 of
                       (Some e, w3) \<Rightarrow> (Inl e, w3)
                     | (None, w3) \<Rightarrow> (Inr (db1, Some pw), w3)))))"

subsection \<open>Passwords\<close>

text \<open>The comparison accumulates differing bits, so it is zero exactly for equal lists.\<close>

lemma compare_fold:
  "fold (\<lambda>(a, b) v. v OR (a XOR b)) ps (v :: byte) = 0 \<longleftrightarrow> v = 0 \<and> (\<forall>(a, b) \<in> set ps. a = b)"
proof (induction ps arbitrary: v)
  case (Cons p ps)
  obtain a b where p: "p = (a, b)" by (cases p)
  have or0: "x OR y = 0 \<longleftrightarrow> x = 0 \<and> y = 0" for x y :: byte
    by (auto simp: or_eq_0_iff)
  have xor0: "a XOR b = 0 \<longleftrightarrow> a = b" by (auto simp: bit_eq_iff bit_simps)
  show ?case by (simp add: p Cons.IH or0 xor0)
qed simp

lemma ConstantTimeCompare_eq [simp]: "ConstantTimeCompare x y = Suc 0 \<longleftrightarrow> x = y"
proof -
  have "(\<forall>(a, b) \<in> set (zip x y). a = b) \<longleftrightarrow> x = y" if "length x = length y"
    using that by (auto simp: list_eq_iff_zip_eq)
  then show ?thesis by (auto simp: ConstantTimeCompare_def compare_fold)
qed

lemma go_bytes_inj [simp]: "go_bytes s = go_bytes t \<longleftrightarrow> s = t"
proof -
  have "inj (\<lambda>c. of_nat (of_char c) :: byte)"
  proof (rule injI)
    fix c d :: char
    assume "(of_nat (of_char c) :: byte) = of_nat (of_char d)"
    then have "unat (of_nat (of_char c) :: byte) = unat (of_nat (of_char d) :: byte)" by simp
    then have "(of_char c :: nat) mod 256 = of_char d mod 256" by (simp add: unat_of_nat)
    then show "c = d" by simp
  qed
  then show ?thesis by (auto simp: go_bytes_def inj_map_eq_map)
qed

lemma check_eq:
  "check env d user pw \<longleftrightarrow> user = User d \<and> hex_decode (PassHash d) = sha256 env (go_bytes (Salt d @ '':'' @ pw))"
  by (simp add: check_def hashPw_def)

text \<open>
  What the panel relies on: SHA-256 gives 32 bytes, the random source as many as asked
  for; a file written without an error reads back; and decoding the JSON of an account
  whose strings are printable ASCII gives its fields back.
\<close>

definition ascii :: "string \<Rightarrow> bool" where
  "ascii s \<longleftrightarrow> (\<forall>c \<in> set s. 32 \<le> (of_char c :: nat) \<and> (of_char c :: nat) < 127)"

definition panel_env_ok :: "'w panel_env \<Rightarrow> bool" where
  "panel_env_ok env \<longleftrightarrow>
     (\<forall>b. length (sha256 env b) = 32)
   \<and> (\<forall>w n. length (fst (rand_read env w n)) = n)
   \<and> (\<forall>w p b. fst (write_file env w p b) = None \<longrightarrow> read_file env (snd (write_file env w p b)) p = Some b)
   \<and> (\<forall>d d0. ascii (User d) \<and> ascii (PassHash d) \<and> ascii (Salt d) \<longrightarrow>
        json_unmarshal env (json_marshal env d) d0 = d\<lparr>db_path := db_path d0\<rparr>)"

lemma ascii_hex: "ascii (hex_encode b)"
proof -
  have "\<forall>d < 16. 32 \<le> (of_char (hex_digit d) :: nat) \<and> (of_char (hex_digit d) :: nat) < 127"
    by (auto simp: hex_digit_def)
  then show ?thesis unfolding ascii_def by (auto dest!: hex_digits)
qed

lemma setPassword_fields:
  assumes "setPassword env w d pw = (d1, w1)"
  shows "User d1 = User d \<and> db_path d1 = db_path d \<and> PassHash d1 = hashPw env (Salt d1) pw
    \<and> (\<exists>b. Salt d1 = hex_encode b \<and> rand_read env w 16 = (b, w1))"
  using assms by (auto simp: setPassword_def randHex_def split: prod.splits)

lemma check_setPassword:
  assumes "setPassword env w d pw = (d1, w1)"
  shows "check env d1 user pw' \<longleftrightarrow>
    user = User d \<and> sha256 env (go_bytes (Salt d1 @ '':'' @ pw)) = sha256 env (go_bytes (Salt d1 @ '':'' @ pw'))"
  using setPassword_fields [OF assms] by (auto simp: check_eq hashPw_def)

lemma reload_saved:
  assumes "panel_env_ok env" and "save env w d = (None, w1)"
    and "ascii (User d)" "ascii (PassHash d)" "ascii (Salt d)" "PassHash d \<noteq> []"
  shows "loadDB env w1 (db_path d) = (d, True)"
proof -
  have "fst (write_file env w (db_path d) (json_marshal env d)) = None"
    "w1 = snd (write_file env w (db_path d) (json_marshal env d))"
    using assms(2) by (simp_all add: save_def)
  then have "read_file env w1 (db_path d) = Some (json_marshal env d)"
    using assms(1) by (simp add: panel_env_ok_def)
  then show ?thesis using assms(1,3-6) by (simp add: loadDB_def panel_env_ok_def)
qed

text \<open>
  (C21) The first run creates a working account: unless the file cannot be written, a
  random password of 18 hexadecimal digits is printed; exactly the user admin with a
  password of the same salted hash can log in; and after a restart the account read
  back from the file is the same one, no new password being made.
\<close>

theorem panel_first_run:
  assumes "panel_env_ok env" and "read_file env w path = None"
    and "panel_start env w path = (r, w')"
  shows "case r of
      Inl e \<Rightarrow> True
    | Inr (db, pw) \<Rightarrow> \<exists>p b. pw = Some p \<and> p = hex_encode b \<and> length p = 18
        \<and> check env db ''admin'' p
        \<and> (\<forall>user q. check env db user q \<longleftrightarrow> user = ''admin''
             \<and> sha256 env (go_bytes (Salt db @ '':'' @ p)) = sha256 env (go_bytes (Salt db @ '':'' @ q)))
        \<and> panel_start env w' path = (Inr (db, None), w')"
proof -
  define db0 where "db0 = \<lparr>User = ''admin'', PassHash = [], Salt = [], db_path = path\<rparr>"
  have l: "loadDB env w path = (db0, False)" using assms(2) by (simp add: loadDB_def db0_def)
  obtain b w1 where b: "rand_read env w 9 = (b, w1)" by (metis prod.exhaust)
  obtain db w2 where d: "setPassword env w1 db0 (hex_encode b) = (db, w2)" by (metis prod.exhaust)
  obtain e w3 where s: "save env w2 db = (e, w3)" by (metis prod.exhaust)
  show ?thesis
  proof (cases e)
    case (Some x)
    with l assms(3) b d s show ?thesis by (auto simp: panel_start_def randHex_def)
  next
    case None
    note f = setPassword_fields [OF d]
    have path: "db_path db = path" using f by (simp add: db0_def)
    have ph: "PassHash db = hex_encode (sha256 env (go_bytes (Salt db @ '':'' @ hex_encode b)))"
      using f by (simp add: hashPw_def)
    have len: "length (PassHash db) = 64" using ph assms(1) by (simp add: panel_env_ok_def)
    have "ascii (User db)" using f by (simp add: ascii_def db0_def)
    moreover have "ascii (PassHash db)" unfolding ph by (rule ascii_hex)
    moreover have "ascii (Salt db)" using f ascii_hex by auto
    moreover have "PassHash db \<noteq> []" using len by auto
    ultimately have "loadDB env w3 path = (db, True)"
      using reload_saved [OF assms(1) s [unfolded None]] path by simp
    then have again: "panel_start env w3 path = (Inr (db, None), w3)" by (simp add: panel_start_def)
    have r: "r = Inr (db, Some (hex_encode b))" "w' = w3"
      using l assms(3) b d s None by (auto simp: panel_start_def randHex_def)
    have "length b = 9" using assms(1) b unfolding panel_env_ok_def by (metis fst_conv)
    then show ?thesis
      using check_setPassword [OF d] again r by (auto simp: db0_def)
  qed
qed

text \<open>A concrete environment: the world is the set of files; JSON is one field per line.\<close>

definition demo_panel :: "(string \<rightharpoonup> string) panel_env" where
  "demo_panel =
     \<lparr>rand_read = (\<lambda>w n. (replicate n 7, w)),
      sha256 = (\<lambda>b. take 32 (b @ replicate 32 0)),
      read_file = (\<lambda>w p. w p),
      write_file = (\<lambda>w p b. (None, w(p \<mapsto> b))),
      json_marshal = (\<lambda>d. Join [User d, PassHash d, Salt d] [CHR 0x0A]),
      json_unmarshal = (\<lambda>b d0. case Split (CHR 0x0A) b of
          [u, h, s] \<Rightarrow> d0\<lparr>User := u, PassHash := h, Salt := s\<rparr> | _ \<Rightarrow> d0),
      clock = (\<lambda>w. 1000 * second)\<rparr>"

lemma demo_panel_ok: "panel_env_ok demo_panel"
proof -
  have "CHR 0x0A \<notin> set s" if "ascii s" for s using that by (auto simp: ascii_def)
  then have "Split (CHR 0x0A) (Join [u, h, s] [CHR 0x0A]) = [u, h, s]" if "ascii u" "ascii h" "ascii s" for u h s
    using that by (intro Split_Join) auto
  moreover have "length (take 32 (b @ replicate 32 (0 :: byte))) = 32" for b by simp
  ultimately show ?thesis by (simp add: panel_env_ok_def demo_panel_def del: length_take)
qed

theorem panel_first_run_witness:
  "\<exists>db w. panel_start demo_panel Map.empty ''db'' = (Inr (db, Some (hex_encode (replicate 9 7))), w)
     \<and> check demo_panel db ''admin'' (hex_encode (replicate 9 7))
     \<and> panel_start demo_panel w ''db'' = (Inr (db, None), w)"
proof -
  have no: "read_file demo_panel Map.empty ''db'' = None" by (simp add: demo_panel_def)
  obtain db w where s: "panel_start demo_panel Map.empty ''db'' = (Inr (db, Some (hex_encode (replicate 9 7))), w)"
    by (simp add: panel_start_def loadDB_def demo_panel_def randHex_def setPassword_def save_def)
  from panel_first_run [OF demo_panel_ok no s] s show ?thesis by auto
qed

subsection \<open>Login sessions\<close>

text \<open>
  The specification of a session store: what has happened to it, newest first, and from
  that the time at which the holder of a token logged in, if that login still stands. A
  login stands until the token is logged out or is presented after its time.
\<close>

datatype session_event = LogIn string time | LogOut string | Present string time

fun holder :: "duration \<Rightarrow> session_event list \<Rightarrow> string \<Rightarrow> time option" where
  "holder ttl [] tok = None"
| "holder ttl (LogIn t now # es) tok = (if t = tok then Some now else holder ttl es tok)"
| "holder ttl (LogOut t # es) tok = (if t = tok then None else holder ttl es tok)"
| "holder ttl (Present t now # es) tok =
     (case holder ttl es tok of
        None \<Rightarrow> None
      | Some since \<Rightarrow> if t = tok \<and> tok \<noteq> [] \<and> since + ttl < now then None else Some since)"

text \<open>The state of a store with the given operations after a history.\<close>

fun store_after ::
  "'s \<Rightarrow> ('s \<Rightarrow> string \<Rightarrow> time \<Rightarrow> 's) \<Rightarrow> ('s \<Rightarrow> time \<Rightarrow> string \<Rightarrow> bool \<times> 's) \<Rightarrow> ('s \<Rightarrow> string \<Rightarrow> 's)
     \<Rightarrow> session_event list \<Rightarrow> 's" where
  "store_after init issue accept revoke [] = init"
| "store_after init issue accept revoke (LogIn t now # es) = issue (store_after init issue accept revoke es) t now"
| "store_after init issue accept revoke (LogOut t # es) = revoke (store_after init issue accept revoke es) t"
| "store_after init issue accept revoke (Present t now # es) = snd (accept (store_after init issue accept revoke es) now t)"

text \<open>
  The contract of a store, through \<open>expiry\<close>, the time until which a token is good: the
  handlers rely on nothing else.
\<close>

locale token_store =
  fixes init :: 's
    and issue :: "'s \<Rightarrow> string \<Rightarrow> time \<Rightarrow> 's"
    and accept :: "'s \<Rightarrow> time \<Rightarrow> string \<Rightarrow> bool \<times> 's"
    and revoke :: "'s \<Rightarrow> string \<Rightarrow> 's"
    and expiry :: "'s \<Rightarrow> string \<Rightarrow> time option"
    and ttl :: duration
  assumes expiry_init: "expiry init tok = None"
    and expiry_issue: "expiry (issue s t now) tok = (if tok = t then Some (now + ttl) else expiry s tok)"
    and expiry_revoke: "expiry (revoke s t) tok = (if tok = t then None else expiry s tok)"
    and accept_iff: "fst (accept s now t) \<longleftrightarrow> t \<noteq> [] \<and> (\<exists>e. expiry s t = Some e \<and> now \<le> e)"
    and expiry_accept: "expiry (snd (accept s now t)) tok =
      (if tok = t \<and> t \<noteq> [] \<and> \<not> fst (accept s now t) then None else expiry s tok)"
begin

lemma expiry_after:
  "expiry (store_after init issue accept revoke es) tok = map_option (\<lambda>t. t + ttl) (holder ttl es tok)"
proof (induction es)
  case Nil
  show ?case by (simp add: expiry_init)
next
  case (Cons e es)
  then show ?case
    by (cases e) (auto simp: expiry_issue expiry_revoke expiry_accept accept_iff split: option.splits)
qed

lemma accept_after:
  "fst (accept (store_after init issue accept revoke es) now tok) \<longleftrightarrow>
     tok \<noteq> [] \<and> (\<exists>since. holder ttl es tok = Some since \<and> now \<le> since + ttl)"
  by (auto simp: accept_iff expiry_after)

end

lemma valid_eq:
  "fst (valid s now t) \<longleftrightarrow> t \<noteq> [] \<and> (\<exists>e. s_m s t = Some e \<and> now \<le> e)"
  by (auto simp: valid_def split: option.splits)

interpretation panel_sessions: token_store newSessions issue_session valid drop_session s_m "8 * hour"
  by unfold_locales
    (auto simp: newSessions_def issue_session_def valid_def drop_session_def split: option.splits)

text \<open>What a standing login means: the last one of that token, not logged out since.\<close>

lemma holder_login:
  "holder ttl es tok = Some since \<Longrightarrow>
     \<exists>pre post. es = pre @ LogIn tok since # post \<and> LogOut tok \<notin> set pre"
proof (induction es)
  case (Cons e es)
  show ?case
  proof (cases "e = LogIn tok since")
    case True
    then show ?thesis by (intro exI [of _ "[]"] exI [of _ es]) simp
  next
    case False
    with Cons.prems have "holder ttl es tok = Some since" "e \<noteq> LogOut tok"
      by (cases e; auto split: if_splits option.splits)+
    with Cons.IH obtain pre post where "es = pre @ LogIn tok since # post" "LogOut tok \<notin> set pre" by blast
    with \<open>e \<noteq> LogOut tok\<close> show ?thesis by (intro exI [of _ "e # pre"] exI [of _ post]) auto
  qed
qed simp

text \<open>
  (C12) The session map implements its specification. After any history of logins,
  logouts and presented tokens, a token is accepted exactly if it is not empty and its
  last login still stands and is at most eight hours old; and then that login is in the
  history, with no logout of the token after it.
\<close>

theorem sessions_implement_history:
  "(fst (valid (store_after newSessions issue_session valid drop_session es) now tok) \<longleftrightarrow>
      tok \<noteq> [] \<and> (\<exists>since. holder (8 * hour) es tok = Some since \<and> now \<le> since + 8 * hour))
   \<and> (fst (valid (store_after newSessions issue_session valid drop_session es) now tok) \<longrightarrow>
      (\<exists>pre since post. es = pre @ LogIn tok since # post \<and> LogOut tok \<notin> set pre \<and> now \<le> since + 8 * hour))"
  using panel_sessions.accept_after [of es now tok] holder_login [of "8 * hour" es tok] by blast

theorem sessions_implement_history_witness:
  "fst (valid (store_after newSessions issue_session valid drop_session [LogIn ''aa'' 5]) (8 * hour) ''aa'')
   \<and> \<not> fst (valid (store_after newSessions issue_session valid drop_session [LogOut ''aa'', LogIn ''aa'' 5]) 6 ''aa'')
   \<and> \<not> fst (valid (store_after newSessions issue_session valid drop_session [LogIn ''aa'' 5]) (6 + 8 * hour) ''aa'')"
  using sessions_implement_history [of "[LogIn ''aa'' 5]"] sessions_implement_history [of "[LogOut ''aa'', LogIn ''aa'' 5]"]
  by simp

end
