(* ===== verification/Panel_Commands.thy ===== *)
theory Panel_Commands
  imports Go_Strings
begin

text \<open>
  The constants and the command lines of src/t2tunnel/webpanel/panel.go: the versions,
  the shell script that installs Go, and the commands behind the buttons of the panel
  as functions of the flags \<open>-repo\<close>, \<open>-bin\<close> and \<open>-service\<close>. A shell script is the text
  handed to \<open>sh -c\<close>; what the shell makes of it is not modelled.
\<close>

abbreviation sq :: string where "sq \<equiv> [CHR 0x27]"
abbreviation dq :: string where "dq \<equiv> [CHR 0x22]"
abbreviation bs :: string where "bs \<equiv> [CHR 0x5C]"
abbreviation nl :: string where "nl \<equiv> [CHR 0x0A]"

definition Version :: string where "Version = ''2.3.1''"
definition GoVersion :: string where "GoVersion = ''1.22.5''"

definition ensureGoLines :: "string list" where
  "ensureGoLines =
     [[],
      ''set -e'',
      ''need=1'',
      ''if command -v go >/dev/null 2>&1; then'',
      ''  cur=$(go version 2>/dev/null | grep -oE '' @ sq @ ''go[0-9]+'' @ bs @ ''.[0-9]+'' @ sq @ '' | head -1 | sed '' @ sq @ ''s/go//'' @ sq @ '')'',
      ''  major=$(echo '' @ dq @ ''$cur'' @ dq @ '' | cut -d. -f1)'',
      ''  minor=$(echo '' @ dq @ ''$cur'' @ dq @ '' | cut -d. -f2)'',
      ''  if [ '' @ dq @ ''${major:-0}'' @ dq @ '' -gt 1 ] || { [ '' @ dq @ ''${major:-0}'' @ dq @ '' -eq 1 ] && [ '' @ dq @ ''${minor:-0}'' @ dq @ '' -ge 22 ]; }; then'',
      ''    need=0'',
      ''  fi'',
      ''fi'',
      ''if [ '' @ dq @ ''$need'' @ dq @ '' -eq 1 ]; then'',
      ''  if command -v snap >/dev/null 2>&1 && snap install go --classic >/dev/null 2>&1; then'',
      ''    export PATH=$PATH:/snap/bin'',
      ''  else'',
      ''    arch=$(uname -m)'',
      ''    case '' @ dq @ ''$arch'' @ dq @ '' in'',
      ''      x86_64) goarch='' @ dq @ ''amd64'' @ dq @ '' ;;'',
      ''      aarch64) goarch='' @ dq @ ''arm64'' @ dq @ '' ;;'',
      ''      armv7l) goarch='' @ dq @ ''armv6l'' @ dq @ '' ;;'',
      ''      *'' @ '') goarch='' @ dq @ ''amd64'' @ dq @ '' ;;'',
      ''    esac'',
      ''    apt-get remove -y golang-go >/dev/null 2>&1 || true'',
      ''    rm -rf /usr/local/go'',
      ''    curl -fL --retry 3 '' @ dq @ ''https://go.dev/dl/go'' @ GoVersion @ ''.linux-${goarch}.tar.gz'' @ dq @ '' -o /tmp/go.tar.gz || true'',
      ''    [ -f /tmp/go.tar.gz ] && tar -C /usr/local -xzf /tmp/go.tar.gz && rm -f /tmp/go.tar.gz'',
      ''    grep -q '' @ dq @ ''/usr/local/go/bin'' @ dq @ '' /etc/profile 2>/dev/null || echo '' @ sq @ ''export PATH=$PATH:/usr/local/go/bin'' @ sq @ '' >> /etc/profile'',
      ''    ln -sf /usr/local/go/bin/go /usr/local/bin/go 2>/dev/null || true'',
      ''  fi'',
      ''fi'',
      ''export PATH=$PATH:/usr/local/go/bin:/snap/bin'',
      ''go env -w GOPROXY=https://goproxy.cn,https://goproxy.io,https://proxy.golang.org,direct 2>/dev/null || true'',
      ''go env -w GOSUMDB=off 2>/dev/null || true'',
      []]"

definition ensureGoScript :: string where
  "ensureGoScript = Join ensureGoLines nl"

record panel_flags =
  flagAddr :: string
  flagRepo :: string
  flagBin :: string
  flagService :: string
  flagDB :: string

definition xrayBin :: string where "xrayBin = ''/usr/local/bin/xray''"

definition deps_script :: string where
  "deps_script =
     ''apt-get update -y && apt-get install -y libpcap-dev build-essential iptables curl tar; '' @ ensureGoScript"

definition build_script :: "panel_flags \<Rightarrow> string" where
  "build_script fl =
     ensureGoScript
     @ ''cd '' @ sq @ flagRepo fl @ sq @ '' && [ -f go.mod ] || go mod init t2hash/tunnel; ''
     @ ''export GOTOOLCHAIN=local; ''
     @ ''export GOPROXY=https://goproxy.cn,https://goproxy.io,https://proxy.golang.org,direct; ''
     @ ''export GOSUMDB=off; ''
     @ ''export GOFLAGS=-mod=mod; ''
     @ ''export HOME=/root; ''
     @ ''go get github.com/refraction-networking/utls@v1.6.7 && ''
     @ ''go get github.com/xtaci/kcp-go/v5@v5.6.18 && ''
     @ ''go get github.com/google/gopacket && go get github.com/gorilla/websocket && go get github.com/xtaci/smux && ''
     @ ''go mod tidy && go build -trimpath -ldflags '' @ sq @ ''-s -w'' @ sq @ '' -o t2tunnel . && ''
     @ ''install -m 0755 t2tunnel '' @ sq @ flagBin fl @ sq"

text \<open>The \<open>switch\<close> of \<open>handleAction\<close>; \<open>None\<close> is its default branch.\<close>

definition action_command :: "panel_flags \<Rightarrow> string \<Rightarrow> string list option" where
  "action_command fl action =
     (if action = ''install-deps'' then Some [''sh'', ''-c'', deps_script]
      else if action = ''build'' then Some [''sh'', ''-c'', build_script fl]
      else if action = ''service-start'' then Some [''systemctl'', ''start'', flagService fl]
      else if action = ''service-stop'' then Some [''systemctl'', ''stop'', flagService fl]
      else if action = ''service-restart'' then Some [''systemctl'', ''restart'', flagService fl]
      else if action = ''service-enable'' then Some [''systemctl'', ''enable'', flagService fl]
      else if action = ''service-disable'' then Some [''systemctl'', ''disable'', flagService fl]
      else if action = ''daemon-reload'' then Some [''systemctl'', ''daemon-reload'']
      else None)"

definition xray_install_command :: "string list" where
  "xray_install_command =
     [''sh'', ''-c'',
      ''bash -c '' @ dq @ ''$(curl -L https://github.com/XTLS/Xray-install/raw/main/install-release.sh)'' @ dq
        @ '' @ install'']"

subsection \<open>Finding the peers of a service\<close>

text \<open>The inner loop of \<open>parsePeers\<close> keeps the word after the last \<open>-dstport\<close>.\<close>

definition dst_port :: "string list \<Rightarrow> string" where
  "dst_port tok =
     fold (\<lambda>j port. if tok ! j = ''-dstport'' then tok ! (j + 1) else port) [0 ..< length tok - 1] []"

definition peers_at :: "string list \<Rightarrow> nat \<Rightarrow> string list" where
  "peers_at tok i =
     (if tok ! i = ''-remote'' then
        (if i + 1 < length tok then [TrimChar (CHR 0x22) (tok ! (i + 1))] else [])
      else if tok ! i = ''-remotes'' then
        (if i + 1 < length tok
         then filter (\<lambda>p. p \<noteq> []) (map TrimSpace (Split (CHR '','') (TrimChar (CHR 0x22) (tok ! (i + 1)))))
         else [])
      else if tok ! i = ''-dstip'' then
        (if i + 1 < length tok
         then let ip = TrimChar (CHR 0x22) (tok ! (i + 1)); port = dst_port tok
              in if port \<noteq> [] then [ip @ '':'' @ port] else []
         else [])
      else [])"

definition parsePeers :: "string \<Rightarrow> string list" where
  "parsePeers execLine =
     (let tok = Fields execLine in concat (map (peers_at tok) [0 ..< length tok]))"

text \<open>The \<open>ExecStart=\<close> line of a unit file.\<close>

fun find_exec :: "string list \<Rightarrow> string" where
  "find_exec [] = []"
| "find_exec (ln # lns) =
     (if has_prefix (TrimSpace ln) ''ExecStart='' then TrimPrefix (TrimSpace ln) ''ExecStart='' else find_exec lns)"

definition exec_line :: "string \<Rightarrow> string" where
  "exec_line unit = find_exec (Split (CHR 0x0A) unit)"

definition service_role :: "string \<Rightarrow> string" where
  "service_role execLine = (if Contains execLine ''-mode client'' then ''client'' else ''server'')"

definition firstLine :: "string \<Rightarrow> string" where
  "firstLine s = (case IndexByte s (CHR 0x0A) of Some i \<Rightarrow> take i s | None \<Rightarrow> TrimSpace s)"

text \<open>Whether \<open>warnIfPublic\<close> prints its warning.\<close>

definition warnIfPublic :: "string \<Rightarrow> bool" where
  "warnIfPublic addr =
     (let host = (case LastIndex addr (CHR '':'') of Some i \<Rightarrow> take i addr | None \<Rightarrow> addr)
      in host \<noteq> [] \<and> host \<noteq> ''127.0.0.1'' \<and> host \<noteq> ''localhost'')"

subsection \<open>Laws\<close>

lemma concat_only:
  "\<lbrakk>i < n; \<forall>j < n. j \<noteq> i \<longrightarrow> f j = []\<rbrakk> \<Longrightarrow> concat (map f [0 ..< n]) = f i"
proof -
  assume i: "i < n" and f: "\<forall>j < n. j \<noteq> i \<longrightarrow> f j = []"
  have "[0 ..< n] = [0 ..< i] @ i # [Suc i ..< n]"
    using i upt_add_eq_append [of 0 i "n - i"] by (simp add: upt_conv_Cons)
  moreover have none: "concat (map f xs) = []" if "\<forall>x \<in> set xs. f x = []" for xs
    using that by (induction xs) auto
  moreover have "concat (map f [0 ..< i]) = []" "concat (map f [Suc i ..< n]) = []"
    using i f by (auto intro!: none simp del: concat_eq_Nil_conv)
  ultimately show ?thesis by (simp only: map_append list.map concat_append concat.simps append_Nil append_Nil2)
qed

text \<open>A command line with one peer flag names the peers at that flag.\<close>

definition peer_flags :: "string set" where
  "peer_flags = {''-remote'', ''-remotes'', ''-dstip''}"

lemma parsePeers_one:
  assumes "\<forall>w \<in> set (pre @ [k, v] @ post). plain_word w"
    and "\<forall>w \<in> set (pre @ [v] @ post). w \<notin> peer_flags"
  shows "parsePeers (Join (pre @ [k, v] @ post) '' '') = peers_at (pre @ [k, v] @ post) (length pre)"
proof -
  let ?ws = "pre @ [k, v] @ post"
  have "peers_at ?ws j = []" if "j < length ?ws" "j \<noteq> length pre" for j
  proof -
    have "?ws ! j \<in> set (pre @ [v] @ post)" using that by (auto simp: nth_append nth_Cons split: nat.splits)
    with assms(2) have "?ws ! j \<notin> peer_flags" by blast
    then show ?thesis by (simp add: peers_at_def peer_flags_def)
  qed
  then have "concat (map (peers_at ?ws) [0 ..< length ?ws]) = peers_at ?ws (length pre)"
    by (intro concat_only) auto
  then show ?thesis using Fields_Join [OF assms(1)] by (simp add: parsePeers_def)
qed

lemma parsePeers_remotes:
  assumes "\<forall>w \<in> set (pre @ post). plain_word w \<and> w \<notin> peer_flags"
    and "addrs \<noteq> []" and "\<forall>a \<in> set addrs. plain_word a \<and> CHR '','' \<notin> set a \<and> CHR 0x22 \<notin> set a"
  shows "parsePeers (Join (pre @ [''-remotes'', dq @ Join addrs '','' @ dq] @ post) '' '') = addrs"
proof -
  let ?v = "dq @ Join addrs '','' @ dq"
  have s: "set (Join addrs '','') \<subseteq> \<Union> (set ` set addrs) \<union> {CHR '',''}" using set_Join [of addrs "'',''"] by simp
  have quote: "CHR 0x22 \<notin> set (Join addrs '','')" using s assms(3) by auto
  have comma: "plain_char (CHR '','')" and q: "plain_char (CHR 0x22)" by (simp_all add: plain_char_def)
  have "\<forall>c \<in> set (Join addrs '',''). plain_char c" using s assms(3) comma by (fastforce simp: plain_word_def)
  then have v: "plain_word ?v" using q by (auto simp: plain_word_def)
  have "?v \<notin> peer_flags" by (simp add: peer_flags_def)
  moreover have "plain_word ''-remotes''" by (simp add: plain_word_def plain_char_def)
  ultimately have "parsePeers (Join (pre @ [''-remotes'', ?v] @ post) '' '')
      = peers_at (pre @ [''-remotes'', ?v] @ post) (length pre)"
    using v assms(1) by (intro parsePeers_one) auto
  also have "\<dots> = filter (\<lambda>p. p \<noteq> []) (map TrimSpace (Split (CHR '','') (Join addrs '','')))"
    using TrimChar_around [OF quote] by (simp add: peers_at_def nth_append)
  also have "Split (CHR '','') (Join addrs '','') = addrs" using assms(2,3) by (intro Split_Join) auto
  also have "map TrimSpace addrs = addrs"
    using assms(3) by (intro map_idI TrimSpace_word_ends) (auto simp: plain_word_def)
  also have "filter (\<lambda>p. p \<noteq> []) addrs = addrs" using assms(3) by (auto simp: plain_word_def)
  finally show ?thesis .
qed

text \<open>The start line of a unit.\<close>

lemma find_exec_after:
  assumes "\<forall>l \<in> set before. \<not> has_prefix (TrimSpace l) ''ExecStart=''" and "TrimSpace line = ''ExecStart='' @ cmd"
  shows "find_exec (before @ line # rest) = cmd"
proof -
  have "has_prefix (''ExecStart='' @ cmd) ''ExecStart=''" by (rule has_prefix_append)
  then have "find_exec (line # rest) = drop (length ''ExecStart='') (''ExecStart='' @ cmd)"
    unfolding find_exec.simps assms(2) TrimPrefix_def by presburger
  also have "\<dots> = cmd" by simp
  finally show ?thesis using assms(1) by (induction before) simp_all
qed

lemma exec_line_unit:
  assumes "\<forall>l \<in> set (before @ rest). CHR 0x0A \<notin> set l"
    and "\<forall>l \<in> set before. \<not> has_prefix (TrimSpace l) ''ExecStart=''"
    and "words \<noteq> []" and "\<forall>w \<in> set words. plain_word w"
  shows "exec_line (Join (before @ (''ExecStart='' @ Join words '' '') # rest) nl) = Join words '' ''"
proof -
  let ?cmd = "Join words '' ''"
  have "last words \<in> set words" using assms(3) by simp
  with assms(4) have lw: "last words \<noteq> []" "plain_char (last (last words))"
    by (auto simp: plain_word_def)
  note l = last_Join [OF assms(3) lw(1), of "'' ''"]
  have "plain_char (CHR ''E'')" by (simp add: plain_char_def)
  then have t: "TrimSpace (''ExecStart='' @ ?cmd) = ''ExecStart='' @ ?cmd"
    using l lw by (intro TrimSpace_word_ends) auto
  have "\<not> plain_char (CHR 0x0A)" by (simp add: plain_char_def)
  then have "CHR 0x0A \<notin> set ?cmd" using set_Join [of words "'' ''"] assms(4) by (fastforce simp: plain_word_def)
  then have "Split (CHR 0x0A) (Join (before @ (''ExecStart='' @ ?cmd) # rest) nl) = before @ (''ExecStart='' @ ?cmd) # rest"
    using assms(1) by (intro Split_Join) auto
  then show ?thesis unfolding exec_line_def using find_exec_after [OF assms(2) t] by simp
qed

lemma LastIndex_last:
  "c \<notin> set t \<Longrightarrow> LastIndex (s @ [c] @ t) c = Some (length s)"
proof -
  assume c: "c \<notin> set t"
  have "IndexByte (u @ c # v) c = Some (length u)" if "c \<notin> set u" for u v
    using that by (induction u) auto
  from this [of "rev t" "rev s"] c show ?thesis by (simp add: LastIndex_def)
qed

text \<open>
  The warning about a public panel is printed for every host but the two local ones,
  whatever the port, and not for the empty host: the address \<open>:2331\<close>, which makes the
  server listen on every interface, is not warned about, though \<open>0.0.0.0:2331\<close> is.
\<close>

theorem panel_warning:
  assumes "CHR '':'' \<notin> set port"
  shows "(warnIfPublic (host @ '':'' @ port) \<longleftrightarrow> host \<notin> {[], ''127.0.0.1'', ''localhost''})
    \<and> \<not> warnIfPublic ('':'' @ port) \<and> warnIfPublic (''0.0.0.0:'' @ port)"
proof -
  have "warnIfPublic (h @ '':'' @ port) \<longleftrightarrow> h \<notin> {[], ''127.0.0.1'', ''localhost''}" for h
    using LastIndex_last [OF assms, of h] by (simp add: warnIfPublic_def)
  from this [of host] this [of "[]"] this [of "''0.0.0.0''"] show ?thesis by simp
qed

theorem panel_warning_witness: "\<not> warnIfPublic '':2331'' \<and> warnIfPublic ''10.0.0.7:2331''"
  using panel_warning [of "''2331''" "''10.0.0.7''"] by simp

end
