(* ===== verification/Panel_Server.thy ===== *)
theory Panel_Server
  imports Panel_Auth Panel_Commands
begin

text \<open>
  The HTTP handlers of src/t2tunnel/webpanel/panel.go. A handler takes the flags, the
  account and sessions, the world and a request, and returns a response. The operating
  system and the JSON decoder are the record \<open>sys_env\<close>. Handlers run one after the other:
  the only state they share, the session map, is accessed under its mutex in single
  operations. A request path is taken as the router sees it: \<open>http.ServeMux\<close> answers a path
  that is not in its cleaned form with a redirection, and no handler runs.
\<close>

datatype json = JBool bool | JStr string | JObj "(string \<times> json) list" | JArr "json list"

record http_req =
  rq_method :: string
  rq_path :: string
  rq_cookie :: "string option"
  rq_body :: string

datatype resp_body = Json json | Html string | NotFound

record cookie =
  ck_value :: string
  ck_MaxAge :: int
  ck_HttpOnly :: bool
  ck_SameSiteStrict :: bool

record response =
  rs_code :: nat
  rs_cookie :: "cookie option"
  rs_body :: resp_body

datatype removal = Removed | NotExist | RemoveFailed go_error

record 'w sys_env =
  combined_output :: "'w \<Rightarrow> string list \<Rightarrow> (string \<times> go_error option) \<times> 'w"
  stat_ok :: "'w \<Rightarrow> string \<Rightarrow> bool"
  os_read :: "'w \<Rightarrow> string \<Rightarrow> string option"
  os_write :: "'w \<Rightarrow> string \<Rightarrow> string \<Rightarrow> go_error option \<times> 'w"
  os_remove :: "'w \<Rightarrow> string \<Rightarrow> removal \<times> 'w"
  dial_timeout :: "'w \<Rightarrow> string \<Rightarrow> string \<Rightarrow> duration \<Rightarrow> bool \<times> 'w"
  sleep_for :: "'w \<Rightarrow> duration \<Rightarrow> 'w"
  error_text :: "go_error \<Rightarrow> string"
  path_join :: "string \<Rightarrow> string \<Rightarrow> string"
  decode_login :: "string \<Rightarrow> string \<times> string"
  decode_action :: "string \<Rightarrow> string"
  decode_unit :: "string \<Rightarrow> go_error + string"
  decode_uninstall :: "string \<Rightarrow> bool \<times> bool \<times> bool"

record panel =
  pn_db :: DB
  pn_sess :: Sessions

type_synonym 'w handler =
  "panel_flags \<Rightarrow> 'w panel_env \<Rightarrow> 'w sys_env \<Rightarrow> panel \<Rightarrow> 'w \<Rightarrow> http_req \<Rightarrow> response \<times> panel \<times> 'w"

subsection \<open>Messages\<close>

text \<open>The Persian texts of the source, as their UTF-8 bytes.\<close>

definition utf8_text :: "nat list \<Rightarrow> string" where
  "utf8_text b = map char_of b"

definition msg_wrong_login :: string where
  "msg_wrong_login = utf8_text
     [217, 134, 216, 167, 217, 133, 32, 218, 169, 216, 167, 216, 177, 216, 168, 216, 177, 219, 140, 32, 219,
      140, 216, 167, 32, 216, 177, 217, 133, 216, 178, 32, 216, 167, 216, 180, 216, 170, 216, 168, 216, 167,
      217, 135, 32, 216, 167, 216, 179, 216, 170]"

definition msg_unknown_action :: string where
  "msg_unknown_action = utf8_text
     [216, 185, 217, 133, 217, 132, 32, 217, 134, 216, 167, 216, 180, 217, 134, 216, 167, 216, 174, 216, 170,
      217, 135]"

definition msg_invalid_unit :: string where
  "msg_invalid_unit = utf8_text
     [217, 133, 216, 173, 216, 170, 217, 136, 216, 167, 219, 140, 32, 216, 179, 216, 177, 217, 136, 219, 140,
      216, 179, 32, 217, 133, 216, 185, 216, 170, 216, 168, 216, 177, 32, 217, 134, 219, 140, 216, 179, 216,
      170]"

definition msg_no_service :: string where
  "msg_no_service = utf8_text
     [216, 179, 216, 177, 217, 136, 219, 140, 216, 179, 32, 217, 135, 217, 134, 217, 136, 216, 178, 32, 216,
      179, 216, 167, 216, 174, 216, 170, 217, 135, 32, 217, 134, 216, 180, 216, 175, 217, 135]"

definition msg_server_waits :: string where
  "msg_server_waits = utf8_text
     [216, 167, 219, 140, 217, 134, 32, 216, 179, 217, 133, 216, 170, 32, 216, 179, 216, 177, 217, 136, 216,
      177, 32, 216, 167, 216, 179, 216, 170, 216, 155, 32, 217, 133, 217, 134, 216, 170, 216, 184, 216, 177,
      32, 216, 167, 216, 170, 216, 181, 216, 167, 217, 132, 32, 218, 169, 217, 132, 216, 167, 219, 140, 217,
      134, 216, 170, 32, 217, 133, 219, 140, 226, 128, 140, 217, 133, 216, 167, 217, 134, 216, 175]"

definition word_service :: string where
  "word_service = utf8_text
     [216, 179, 216, 177, 217, 136, 219, 140, 216, 179]"

definition word_binary :: string where
  "word_binary = utf8_text
     [216, 168, 216, 167, 219, 140, 217, 134, 216, 177, 219, 140]"

definition msg_removed :: string where
  "msg_removed = utf8_text
     [32, 216, 173, 216, 176, 217, 129, 32, 216, 180, 216, 175, 58, 32]"

definition msg_not_there :: string where
  "msg_not_there = utf8_text
     [32, 216, 167, 216, 178, 32, 217, 130, 216, 168, 217, 132, 32, 217, 136, 216, 172, 217, 136, 216, 175,
      32, 217, 134, 216, 175, 216, 167, 216, 180, 216, 170]"

definition msg_remove_error :: string where
  "msg_remove_error = utf8_text
     [216, 174, 216, 183, 216, 167, 32, 216, 175, 216, 177, 32, 216, 173, 216, 176, 217, 129, 32]"

definition msg_cleared :: string where
  "msg_cleared = utf8_text
     [217, 190, 216, 167, 218, 169, 32, 216, 180, 216, 175, 58, 32]"

definition msg_build_removed :: string where
  "msg_build_removed = utf8_text
     [217, 129, 216, 167, 219, 140, 217, 132, 226, 128, 140, 217, 135, 216, 167, 219, 140, 32, 217, 133, 217,
      136, 217, 130, 216, 170, 32, 216, 168, 219, 140, 217, 132, 216, 175, 32, 217, 190, 216, 167, 218, 169,
      32, 216, 180, 216, 175, 217, 134, 216, 175]"

definition missing_page :: string where
  "missing_page =
     ''<!doctype html><meta charset=utf-8><body style=''
     @ sq
     @ ''font-family:sans-serif;background:#080812;color:#e8e8f5;padding:40px''
     @ sq
     @ ''><h2>panel.html ''
     @ utf8_text [217, 190, 219, 140, 216, 175, 216, 167, 32, 217, 134, 216, 180, 216, 175]
     @ ''</h2><p>''
     @ utf8_text [217, 129, 216, 167, 219, 140, 217, 132]
     @ '' <code>panel.html</code> ''
     @ utf8_text [216, 177, 216, 167, 32, 218, 169, 217, 134, 216, 167, 216, 177, 32, 216, 168, 216, 167, 219, 140, 217,
        134, 216, 177, 219, 140, 32, 217, 190, 217, 134, 217, 132]
     @ '' (''
     @ utf8_text [216, 175, 216, 177, 32, 217, 190, 217, 136, 216, 180, 217, 135, 226, 128, 140, 219, 140]
     @ '' repo) ''
     @ utf8_text [216, 168, 218, 175, 216, 176, 216, 167, 216, 177]
     @ ''.</p>''"

definition writeJSON :: "nat \<Rightarrow> (string \<times> json) list \<Rightarrow> response" where
  "writeJSON code v = \<lparr>rs_code = code, rs_cookie = None, rs_body = Json (JObj v)\<rparr>"

definition json_error :: "nat \<Rightarrow> string \<Rightarrow> response" where
  "json_error code msg = writeJSON code [(''error'', JStr msg)]"

definition run :: "'w sys_env \<Rightarrow> 'w \<Rightarrow> string list \<Rightarrow> string \<times> 'w" where
  "run sys w cmd = (case combined_output sys w cmd of ((out, e), w1) \<Rightarrow> (out, w1))"

definition fileExists :: "'w sys_env \<Rightarrow> 'w \<Rightarrow> string \<Rightarrow> bool" where
  "fileExists sys w p = stat_ok sys w p"

definition unit_path :: "panel_flags \<Rightarrow> string" where
  "unit_path fl = ''/etc/systemd/system/'' @ flagService fl @ ''.service''"

text \<open>\<open>io.LimitReader\<close>.\<close>

definition limited :: "nat \<Rightarrow> http_req \<Rightarrow> string" where
  "limited n rq = take n (rq_body rq)"

subsection \<open>Logging in and out\<close>

text \<open>\<open>auth\<close> wraps every handler but two.\<close>

definition auth :: "'w handler \<Rightarrow> 'w handler" where
  "auth next fl env sys p w rq =
     (case rq_cookie rq of
        None \<Rightarrow> (json_error 401 ''unauthorized'', p, w)
      | Some tok \<Rightarrow>
          (case valid (pn_sess p) (clock env w) tok of
             (ok, sess) \<Rightarrow>
               if ok then next fl env sys (p\<lparr>pn_sess := sess\<rparr>) w rq
               else (json_error 401 ''unauthorized'', p\<lparr>pn_sess := sess\<rparr>, w)))"

definition handleLogin :: "'w handler" where
  "handleLogin fl env sys p w rq =
     (if rq_method rq \<noteq> ''POST'' then (json_error 405 ''method'', p, w)
      else case decode_login sys (limited (2 ^ 16) rq) of
        (user, pass) \<Rightarrow>
          (let w1 = sleep_for sys w (250 * millisecond)
           in if \<not> check env (pn_db p) user pass then (json_error 401 msg_wrong_login, p, w1)
              else case create env w1 (pn_sess p) of
                (tok, sess, w2) \<Rightarrow>
                  ((writeJSON 200 [(''ok'', JBool True)])\<lparr>rs_cookie := Some \<lparr>ck_value = tok, ck_MaxAge = 8 * 3600,
                      ck_HttpOnly = True, ck_SameSiteStrict = True\<rparr>\<rparr>,
                   p\<lparr>pn_sess := sess\<rparr>, w2)))"

definition handleLogout :: "'w handler" where
  "handleLogout fl env sys p w rq =
     ((writeJSON 200 [(''ok'', JBool True)])\<lparr>rs_cookie := Some \<lparr>ck_value = [], ck_MaxAge = - 1,
         ck_HttpOnly = False, ck_SameSiteStrict = False\<rparr>\<rparr>,
      (case rq_cookie rq of None \<Rightarrow> p | Some tok \<Rightarrow> p\<lparr>pn_sess := drop_session (pn_sess p) tok\<rparr>), w)"

subsection \<open>Managing the service\<close>

definition hasLibpcap :: "'w sys_env \<Rightarrow> 'w \<Rightarrow> bool \<times> 'w" where
  "hasLibpcap sys w =
     (case run sys w [''sh'', ''-c'', ''ldconfig -p 2>/dev/null | grep libpcap''] of
        (out, w1) \<Rightarrow> (Contains out ''libpcap'', w1))"

definition handleStatus :: "'w handler" where
  "handleStatus fl env sys p w rq =
     (case run sys w [''sh'', ''-c'', ''export PATH=$PATH:/usr/local/go/bin; go version''] of
        (ver, w1) \<Rightarrow>
          (let exists = fileExists sys w1 (flagBin fl)
           in case hasLibpcap sys w1 of
             (pcap, w2) \<Rightarrow>
               (case run sys w2 [''systemctl'', ''is-active'', flagService fl] of
                  (out, w3) \<Rightarrow>
                    (let active = TrimSpace out
                     in (writeJSON 200
                           [(''version'', JStr Version), (''repo'', JStr (flagRepo fl)), (''service'', JStr (flagService fl)),
                            (''goVersion'', JStr (firstLine ver)), (''binExists'', JBool exists), (''libpcap'', JBool pcap),
                            (''serviceActive'', JBool (active = ''active'')), (''serviceState'', JStr active)],
                         p, w3)))))"

definition command_response :: "'w sys_env \<Rightarrow> string \<Rightarrow> go_error option \<Rightarrow> (string \<times> json) list" where
  "command_response sys out err =
     [(''output'', JStr out), (''ok'', JBool (err = None))]
     @ (case err of None \<Rightarrow> [] | Some e \<Rightarrow> [(''error'', JStr (error_text sys e))])"

definition handleAction :: "'w handler" where
  "handleAction fl env sys p w rq =
     (case action_command fl (decode_action sys (limited (2 ^ 16) rq)) of
        None \<Rightarrow> (json_error 400 msg_unknown_action, p, w)
      | Some cmd \<Rightarrow>
          (case combined_output sys w cmd of
             ((out, err), w1) \<Rightarrow> (writeJSON 200 (command_response sys out err), p, w1)))"

definition handleLogs :: "'w handler" where
  "handleLogs fl env sys p w rq =
     (case run sys w [''journalctl'', ''-u'', flagService fl, ''-n'', ''200'', ''--no-pager'', ''-o'', ''short-iso''] of
        (out, w1) \<Rightarrow> (writeJSON 200 [(''logs'', JStr out)], p, w1))"

definition handleSaveService :: "'w handler" where
  "handleSaveService fl env sys p w rq =
     (case decode_unit sys (limited (2 ^ 18) rq) of
        Inl e \<Rightarrow> (json_error 400 ''bad body'', p, w)
      | Inr unit \<Rightarrow>
          if \<not> Contains unit ''[Service]'' \<or> \<not> Contains unit ''ExecStart='' then (json_error 400 msg_invalid_unit, p, w)
          else case os_write sys w (unit_path fl) unit of
            (Some e, w1) \<Rightarrow> (json_error 500 (error_text sys e), p, w1)
          | (None, w1) \<Rightarrow>
              (case run sys w1 [''systemctl'', ''daemon-reload''] of
                 (out, w2) \<Rightarrow> (writeJSON 200 [(''ok'', JBool True), (''path'', JStr (unit_path fl))], p, w2)))"

definition removal_log :: "'w sys_env \<Rightarrow> string \<Rightarrow> string \<Rightarrow> removal \<Rightarrow> string" where
  "removal_log sys what path r =
     (case r of
        Removed \<Rightarrow> what @ msg_removed @ path
      | NotExist \<Rightarrow> what @ msg_not_there
      | RemoveFailed e \<Rightarrow> msg_remove_error @ what @ '': '' @ error_text sys e)"

definition uninstall_service :: "panel_flags \<Rightarrow> 'w sys_env \<Rightarrow> 'w \<Rightarrow> string list \<times> 'w" where
  "uninstall_service fl sys w =
     (case run sys w [''systemctl'', ''stop'', flagService fl] of
        (o1, w1) \<Rightarrow>
          (case run sys w1 [''systemctl'', ''disable'', flagService fl] of
             (o2, w2) \<Rightarrow>
               (case os_remove sys w2 (unit_path fl) of
                  (r, w3) \<Rightarrow>
                    (case run sys w3 [''systemctl'', ''daemon-reload''] of
                       (o3, w4) \<Rightarrow> ([removal_log sys word_service (unit_path fl) r], w4)))))"

definition uninstall_binary :: "panel_flags \<Rightarrow> 'w sys_env \<Rightarrow> 'w \<Rightarrow> string list \<times> 'w" where
  "uninstall_binary fl sys w =
     (case os_remove sys w (flagBin fl) of
        (r, w1) \<Rightarrow> ([removal_log sys word_binary (flagBin fl) r], w1))"

fun uninstall_build :: "panel_flags \<Rightarrow> 'w sys_env \<Rightarrow> 'w \<Rightarrow> string list \<Rightarrow> string list \<times> 'w" where
  "uninstall_build fl sys w [] = ([msg_build_removed], w)"
| "uninstall_build fl sys w (name # names) =
     (let p = path_join sys (flagRepo fl) name
      in case os_remove sys w p of
           (r, w1) \<Rightarrow>
             (case uninstall_build fl sys w1 names of
                (logs, w2) \<Rightarrow> ((if r = Removed then [msg_cleared @ p] else []) @ logs, w2)))"

definition handleUninstall :: "'w handler" where
  "handleUninstall fl env sys p w rq =
     (case decode_uninstall sys (limited (2 ^ 16) rq) of
        (binary, service, build) \<Rightarrow>
          (case (if service then uninstall_service fl sys w else ([], w)) of
             (l1, w1) \<Rightarrow>
               (case (if binary then uninstall_binary fl sys w1 else ([], w1)) of
                  (l2, w2) \<Rightarrow>
                    (case (if build
                           then uninstall_build fl sys w2 [''t2tunnel'', ''rawtest'', ''rawchantest'', ''kcprawtest'']
                           else ([], w2)) of
                       (l3, w3) \<Rightarrow>
                         (writeJSON 200 [(''ok'', JBool True), (''log'', JStr (Join (l1 @ l2 @ l3) nl))], p, w3)))))"

subsection \<open>The peer and Xray\<close>

definition tcpReachable :: "'w sys_env \<Rightarrow> 'w \<Rightarrow> string \<Rightarrow> duration \<Rightarrow> bool \<times> 'w" where
  "tcpReachable sys w addr timeout = dial_timeout sys w ''tcp'' addr timeout"

fun probe_peers :: "'w sys_env \<Rightarrow> 'w \<Rightarrow> string list \<Rightarrow> (string \<times> bool) list \<times> 'w" where
  "probe_peers sys w [] = ([], w)"
| "probe_peers sys w (a # as) =
     (case tcpReachable sys w a (4 * second) of
        (up, w1) \<Rightarrow> (case probe_peers sys w1 as of (rs, w2) \<Rightarrow> ((a, up) # rs, w2)))"

definition handlePeer :: "'w handler" where
  "handlePeer fl env sys p w rq =
     (case os_read sys w (unit_path fl) of
        None \<Rightarrow> (writeJSON 200 [(''configured'', JBool False), (''reachable'', JBool False),
                   (''reason'', JStr msg_no_service)], p, w)
      | Some unit \<Rightarrow>
          (let execLine = exec_line unit; peers = parsePeers execLine; role = service_role execLine
           in if peers = []
              then (writeJSON 200 [(''configured'', JBool True), (''role'', JStr role), (''reachable'', JBool False),
                      (''reason'', JStr msg_server_waits)], p, w)
              else case probe_peers sys w peers of
                (rs, w1) \<Rightarrow>
                  (writeJSON 200 [(''configured'', JBool True), (''role'', JStr role),
                     (''reachable'', JBool (\<exists>(a, up) \<in> set rs. up)),
                     (''peers'', JArr (map (\<lambda>(a, up). JObj [(''addr'', JStr a), (''up'', JBool up)]) rs))], p, w1)))"

definition handleXrayStatus :: "'w handler" where
  "handleXrayStatus fl env sys p w rq =
     (case (if fileExists sys w xrayBin
            then (case run sys w [xrayBin, ''version''] of (out, w1) \<Rightarrow> (firstLine out, w1))
            else ([], w)) of
        (ver, w1) \<Rightarrow>
          (let installed = fileExists sys w1 xrayBin
           in case run sys w1 [''sh'', ''-c'', ''uname -m | tr -d '' @ sq @ nl @ sq] of
             (arch, w2) \<Rightarrow>
               (writeJSON 200 [(''installed'', JBool installed), (''version'', JStr ver), (''arch'', JStr arch)], p, w2)))"

definition handleXrayInstall :: "'w handler" where
  "handleXrayInstall fl env sys p w rq =
     (case combined_output sys w xray_install_command of
        ((out, err), w1) \<Rightarrow>
          (writeJSON 200 (command_response sys out err @ [(''installed'', JBool (fileExists sys w1 xrayBin))]), p, w1))"

definition handleIndex :: "'w handler" where
  "handleIndex fl env sys p w rq =
     (if rq_path rq \<noteq> ''/'' then (\<lparr>rs_code = 404, rs_cookie = None, rs_body = NotFound\<rparr>, p, w)
      else case os_read sys w (path_join sys (flagRepo fl) ''panel.html'') of
        Some b \<Rightarrow> (\<lparr>rs_code = 200, rs_cookie = None, rs_body = Html b\<rparr>, p, w)
      | None \<Rightarrow> (\<lparr>rs_code = 200, rs_cookie = None, rs_body = Html missing_page\<rparr>, p, w))"

text \<open>The routes: the pattern \<open>/\<close> matches whatever no other pattern does.\<close>

definition protected_handler :: "string \<Rightarrow> 'w handler option" where
  "protected_handler path =
     (if path = ''/api/logout'' then Some handleLogout
      else if path = ''/api/status'' then Some handleStatus
      else if path = ''/api/action'' then Some handleAction
      else if path = ''/api/logs'' then Some handleLogs
      else if path = ''/api/save-service'' then Some handleSaveService
      else if path = ''/api/uninstall'' then Some handleUninstall
      else if path = ''/api/peer'' then Some handlePeer
      else if path = ''/api/xray/status'' then Some handleXrayStatus
      else if path = ''/api/xray/install'' then Some handleXrayInstall
      else None)"

definition serve :: "'w handler" where
  "serve fl env sys p w rq =
     (if rq_path rq = ''/api/login'' then handleLogin fl env sys p w rq
      else case protected_handler (rq_path rq) of
             Some h \<Rightarrow> auth h fl env sys p w rq
           | None \<Rightarrow> handleIndex fl env sys p w rq)"

end
