(* ===== verification/Panel_Security.thy ===== *)
theory Panel_Security
  imports Panel_Server
begin

text \<open>
  What the panel may do and for whom: the properties of the handlers of
  src/t2tunnel/webpanel/panel.go. The effects of a request on the system are recorded in
  a list; the panel only ever produces effects of a fixed set, which the request can
  select from but not extend; and only for the holder of a session.
\<close>

subsection \<open>Recording effects\<close>

datatype effect =
    Ran "string list"
  | Wrote string string
  | Deleted string
  | Dialled string

text \<open>The same environment, on worlds that carry the list of the effects so far, newest first.\<close>

definition record_env :: "'w panel_env \<Rightarrow> ('w \<times> effect list) panel_env" where
  "record_env env =
     \<lparr>rand_read = (\<lambda>(w, l) n. case rand_read env w n of (b, w1) \<Rightarrow> (b, (w1, l))),
      sha256 = sha256 env,
      read_file = (\<lambda>(w, l) p. read_file env w p),
      write_file = (\<lambda>(w, l) p b. case write_file env w p b of (e, w1) \<Rightarrow> (e, (w1, Wrote p b # l))),
      json_marshal = json_marshal env,
      json_unmarshal = json_unmarshal env,
      clock = (\<lambda>(w, l). clock env w)\<rparr>"

definition record_sys :: "'w sys_env \<Rightarrow> ('w \<times> effect list) sys_env" where
  "record_sys sys =
     \<lparr>combined_output = (\<lambda>(w, l) c. case combined_output sys w c of (r, w1) \<Rightarrow> (r, (w1, Ran c # l))),
      stat_ok = (\<lambda>(w, l) p. stat_ok sys w p),
      os_read = (\<lambda>(w, l) p. os_read sys w p),
      os_write = (\<lambda>(w, l) p b. case os_write sys w p b of (e, w1) \<Rightarrow> (e, (w1, Wrote p b # l))),
      os_remove = (\<lambda>(w, l) p. case os_remove sys w p of (r, w1) \<Rightarrow> (r, (w1, Deleted p # l))),
      dial_timeout = (\<lambda>(w, l) n a t. case dial_timeout sys w n a t of (up, w1) \<Rightarrow> (up, (w1, Dialled a # l))),
      sleep_for = (\<lambda>(w, l) d. (sleep_for sys w d, l)),
      error_text = error_text sys,
      path_join = path_join sys,
      decode_login = decode_login sys,
      decode_action = decode_action sys,
      decode_unit = decode_unit sys,
      decode_uninstall = decode_uninstall sys\<rparr>"

text \<open>The command lines of the panel: a list that depends on the flags alone.\<close>

definition action_names :: "string list" where
  "action_names = [''install-deps'', ''build'', ''service-start'', ''service-stop'', ''service-restart'',
     ''service-enable'', ''service-disable'', ''daemon-reload'']"

definition query_commands :: "panel_flags \<Rightarrow> string list list" where
  "query_commands fl =
     [[''sh'', ''-c'', ''ldconfig -p 2>/dev/null | grep libpcap''],
      [''sh'', ''-c'', ''export PATH=$PATH:/usr/local/go/bin; go version''],
      [''systemctl'', ''is-active'', flagService fl],
      [''journalctl'', ''-u'', flagService fl, ''-n'', ''200'', ''--no-pager'', ''-o'', ''short-iso''],
      [xrayBin, ''version''],
      [''sh'', ''-c'', ''uname -m | tr -d '' @ sq @ nl @ sq],
      xray_install_command]"

definition panel_commands :: "panel_flags \<Rightarrow> string list list" where
  "panel_commands fl = List.map_filter (action_command fl) action_names @ query_commands fl"

definition unit_peers :: "panel_flags \<Rightarrow> 'w sys_env \<Rightarrow> 'w \<Rightarrow> string list" where
  "unit_peers fl sys w =
     (case os_read sys w (unit_path fl) of None \<Rightarrow> [] | Some unit \<Rightarrow> parsePeers (exec_line unit))"

fun allowed :: "panel_flags \<Rightarrow> 'w sys_env \<Rightarrow> 'w \<Rightarrow> effect \<Rightarrow> bool" where
  "allowed fl sys w (Ran c) \<longleftrightarrow> c \<in> set (panel_commands fl)"
| "allowed fl sys w (Wrote p b) \<longleftrightarrow> p = unit_path fl \<and> Contains b ''[Service]'' \<and> Contains b ''ExecStart=''"
| "allowed fl sys w (Deleted p) \<longleftrightarrow> p = unit_path fl \<or> p = flagBin fl
     \<or> p \<in> path_join sys (flagRepo fl) ` {''t2tunnel'', ''rawtest'', ''rawchantest'', ''kcprawtest''}"
| "allowed fl sys w (Dialled a) \<longleftrightarrow> a \<in> set (unit_peers fl sys w)"

subsection \<open>Confinement\<close>

lemma action_command_listed: "action_command fl a = Some c \<Longrightarrow> c \<in> set (panel_commands fl)"
  by (auto simp: action_command_def panel_commands_def action_names_def List.map_filter_def split: if_splits)

lemma query_listed: "c \<in> set (query_commands fl) \<Longrightarrow> c \<in> set (panel_commands fl)"
  by (simp add: panel_commands_def)

text \<open>
  A predicate on worlds that every allowed operation keeps, started from the world in
  which a request arrives, is kept by the request.
\<close>

locale confined =
  fixes fl :: panel_flags
    and env :: "'w panel_env"
    and sys :: "'w sys_env"
    and start :: 'w
    and I :: "'w \<Rightarrow> bool"
  assumes start: "I start"
    and ran: "\<lbrakk>I w; allowed fl sys start (Ran c)\<rbrakk> \<Longrightarrow> I (snd (combined_output sys w c))"
    and wrote: "\<lbrakk>I w; allowed fl sys start (Wrote f b)\<rbrakk> \<Longrightarrow> I (snd (os_write sys w f b))"
    and deleted: "\<lbrakk>I w; allowed fl sys start (Deleted f)\<rbrakk> \<Longrightarrow> I (snd (os_remove sys w f))"
    and dialled: "\<lbrakk>I w; allowed fl sys start (Dialled a)\<rbrakk> \<Longrightarrow> I (snd (dial_timeout sys w n a d))"
    and slept: "I w \<Longrightarrow> I (sleep_for sys w d)"
    and drew: "I w \<Longrightarrow> I (snd (rand_read env w k))"
begin

lemma output_kept: "\<lbrakk>I w; c \<in> set (panel_commands fl); combined_output sys w c = (r, w1)\<rbrakk> \<Longrightarrow> I w1"
  using ran [of w c] by simp

lemma run_kept: "\<lbrakk>I w; c \<in> set (query_commands fl); run sys w c = (out, w1)\<rbrakk> \<Longrightarrow> I w1"
  using output_kept [of w c] query_listed [of c fl] by (auto simp: run_def split: prod.splits)

lemma run_action_kept: "\<lbrakk>I w; action_command fl a = Some c; run sys w c = (out, w1)\<rbrakk> \<Longrightarrow> I w1"
  using output_kept [of w c] action_command_listed [of fl a c] by (auto simp: run_def split: prod.splits)

lemma status_kept: "I w \<Longrightarrow> I (snd (snd (handleStatus fl env sys p w rq)))"
  by (auto simp: handleStatus_def hasLibpcap_def Let_def query_commands_def
      elim!: run_kept [rotated 2] split: prod.splits)

lemma action_kept: "I w \<Longrightarrow> I (snd (snd (handleAction fl env sys p w rq)))"
  using output_kept action_command_listed
  by (fastforce simp: handleAction_def split: option.splits prod.splits)

lemma logs_kept: "I w \<Longrightarrow> I (snd (snd (handleLogs fl env sys p w rq)))"
  by (auto simp: handleLogs_def query_commands_def elim!: run_kept [rotated 2] split: prod.splits)

lemma reload_kept: "\<lbrakk>I w; run sys w [''systemctl'', ''daemon-reload''] = (out, w1)\<rbrakk> \<Longrightarrow> I w1"
  by (erule run_action_kept [where a = "''daemon-reload''", rotated 2]) (simp_all add: action_command_def)

lemma stop_kept: "\<lbrakk>I w; run sys w [''systemctl'', ''stop'', flagService fl] = (out, w1)\<rbrakk> \<Longrightarrow> I w1"
  by (erule run_action_kept [where a = "''service-stop''", rotated 2]) (simp_all add: action_command_def)

lemma disable_kept: "\<lbrakk>I w; run sys w [''systemctl'', ''disable'', flagService fl] = (out, w1)\<rbrakk> \<Longrightarrow> I w1"
  by (erule run_action_kept [where a = "''service-disable''", rotated 2]) (simp_all add: action_command_def)

lemma save_kept: "I w \<Longrightarrow> I (snd (snd (handleSaveService fl env sys p w rq)))"
proof (cases "decode_unit sys (limited (2 ^ 18) rq)")
  case (Inr unit)
  assume I: "I w"
  obtain e w1 where w: "os_write sys w (unit_path fl) unit = (e, w1)" by (metis prod.exhaust)
  show ?thesis
  proof (cases "Contains unit ''[Service]'' \<and> Contains unit ''ExecStart=''")
    case True
    with I w wrote [of w "unit_path fl" unit] have "I w1" by simp
    with True Inr w show ?thesis
      by (auto simp: handleSaveService_def dest: reload_kept split: prod.splits option.splits)
  next
    case False
    with I Inr show ?thesis by (auto simp: handleSaveService_def)
  qed
qed (simp add: handleSaveService_def)

lemma remove_kept: "\<lbrakk>I w; allowed fl sys start (Deleted f); os_remove sys w f = (r, w1)\<rbrakk> \<Longrightarrow> I w1"
  using deleted [of w f] by simp

lemma unit_removed_kept: "\<lbrakk>I w; os_remove sys w (unit_path fl) = (r, w1)\<rbrakk> \<Longrightarrow> I w1"
  by (rule remove_kept) simp_all

lemma uninstall_service_kept: "I w \<Longrightarrow> I (snd (uninstall_service fl sys w))"
proof -
  assume "I w"
  obtain o1 w1 where 1: "run sys w [''systemctl'', ''stop'', flagService fl] = (o1, w1)" by (metis prod.exhaust)
  obtain o2 w2 where 2: "run sys w1 [''systemctl'', ''disable'', flagService fl] = (o2, w2)" by (metis prod.exhaust)
  obtain r w3 where 3: "os_remove sys w2 (unit_path fl) = (r, w3)" by (metis prod.exhaust)
  obtain o4 w4 where 4: "run sys w3 [''systemctl'', ''daemon-reload''] = (o4, w4)" by (metis prod.exhaust)
  have "I w4"
    by (rule reload_kept [OF unit_removed_kept [OF disable_kept [OF stop_kept [OF \<open>I w\<close> 1] 2] 3] 4])
  then show ?thesis by (simp add: uninstall_service_def 1 2 3 4)
qed

lemma uninstall_binary_kept: "I w \<Longrightarrow> I (snd (uninstall_binary fl sys w))"
  by (auto simp: uninstall_binary_def dest: remove_kept split: prod.splits)

lemma uninstall_build_kept:
  "\<lbrakk>I w; set names \<subseteq> {''t2tunnel'', ''rawtest'', ''rawchantest'', ''kcprawtest''}\<rbrakk>
     \<Longrightarrow> I (snd (uninstall_build fl sys w names))"
proof (induction names arbitrary: w)
  case (Cons name names)
  obtain r w1 where r: "os_remove sys w (path_join sys (flagRepo fl) name) = (r, w1)" by (metis prod.exhaust)
  have "I w1" using Cons.prems by (intro remove_kept [OF _ _ r]) auto
  moreover have "set names \<subseteq> {''t2tunnel'', ''rawtest'', ''rawchantest'', ''kcprawtest''}" using Cons.prems by simp
  ultimately have "I (snd (uninstall_build fl sys w1 names))" by (rule Cons.IH)
  then show ?case by (cases "uninstall_build fl sys w1 names") (simp add: r Let_def)
qed simp

lemma uninstall_kept: "I w \<Longrightarrow> I (snd (snd (handleUninstall fl env sys p w rq)))"
  using uninstall_service_kept uninstall_binary_kept
    uninstall_build_kept [of _ "[''t2tunnel'', ''rawtest'', ''rawchantest'', ''kcprawtest'']"]
  by (fastforce simp: handleUninstall_def split: prod.splits)

lemma probe_kept: "\<lbrakk>I w; set as \<subseteq> set (unit_peers fl sys start)\<rbrakk> \<Longrightarrow> I (snd (probe_peers sys w as))"
proof (induction as arbitrary: w)
  case (Cons a as)
  obtain up w1 where r: "dial_timeout sys w ''tcp'' a (4 * second) = (up, w1)" by (metis prod.exhaust)
  have "allowed fl sys start (Dialled a)" using Cons.prems by simp
  with Cons.prems(1) have "I (snd (dial_timeout sys w ''tcp'' a (4 * second)))" by (rule dialled)
  then have "I w1" by (simp only: r snd_conv)
  moreover have "set as \<subseteq> set (unit_peers fl sys start)" using Cons.prems by simp
  ultimately have "I (snd (probe_peers sys w1 as))" by (rule Cons.IH)
  moreover have "tcpReachable sys w a (4 * second) = (up, w1)" unfolding tcpReachable_def by (rule r)
  ultimately show ?case by (cases "probe_peers sys w1 as") simp
qed simp

lemma peer_kept: "I (snd (snd (handlePeer fl env sys p start rq)))"
proof (cases "os_read sys start (unit_path fl)")
  case (Some unit)
  have "I (snd (probe_peers sys start (parsePeers (exec_line unit))))"
    by (rule probe_kept [OF start]) (simp add: unit_peers_def Some)
  with Some start show ?thesis by (auto simp: handlePeer_def Let_def split: prod.splits)
qed (simp add: handlePeer_def start)

lemma xray_status_kept: "I w \<Longrightarrow> I (snd (snd (handleXrayStatus fl env sys p w rq)))"
  by (auto simp: handleXrayStatus_def query_commands_def Let_def
      elim!: run_kept [rotated 2] split: prod.splits if_splits)

lemma xray_install_kept: "I w \<Longrightarrow> I (snd (snd (handleXrayInstall fl env sys p w rq)))"
  by (auto simp: handleXrayInstall_def query_commands_def panel_commands_def
      elim!: output_kept [rotated 2] split: prod.splits)

lemmas handlers_kept = status_kept action_kept logs_kept save_kept uninstall_kept xray_status_kept xray_install_kept

lemma protected_kept: "protected_handler path = Some h \<Longrightarrow> I (snd (snd (h fl env sys p start rq)))"
  using handlers_kept [OF start] peer_kept start
  by (auto simp: protected_handler_def handleLogout_def split: if_splits)

lemma login_kept: "I w \<Longrightarrow> I (snd (snd (handleLogin fl env sys p w rq)))"
  using drew [of "sleep_for sys w (250 * millisecond)" 32] slept [of w "250 * millisecond"]
  by (auto simp: handleLogin_def create_def randHex_def Let_def split: prod.splits)

lemma serve_kept: "I (snd (snd (serve fl env sys p start rq)))"
proof (cases "rq_path rq = ''/api/login''")
  case True
  then show ?thesis by (simp add: serve_def login_kept start)
next
  case False
  then show ?thesis
    using protected_kept [of "rq_path rq"] start
    by (auto simp: serve_def auth_def handleIndex_def split: option.splits prod.splits)
qed

end

interpretation recorded: confined fl "record_env env" "record_sys sys" "(w0, [])"
    "\<lambda>(w, es). \<forall>e \<in> set es. allowed fl (record_sys sys) (w0, []) e"
  for fl env sys w0
  by unfold_locales (auto simp: record_env_def record_sys_def split: prod.splits)

lemma unit_peers_record [simp]: "unit_peers fl (record_sys sys) (w, es) = unit_peers fl sys w"
  by (simp add: unit_peers_def record_sys_def)

subsection \<open>The recorded run is the run\<close>

text \<open>The world of a recording without its list.\<close>

definition erase :: "'a \<times> 'b \<times> 'w \<times> effect list \<Rightarrow> 'a \<times> 'b \<times> 'w" where
  "erase r = (case r of (a, b, w, l) \<Rightarrow> (a, b, w))"

lemma record_run: "run (record_sys sys) (w, l) c = (case run sys w c of (out, w1) \<Rightarrow> (out, (w1, Ran c # l)))"
  by (simp add: run_def record_sys_def split: prod.splits)

lemma record_fields [simp]:
  "error_text (record_sys sys) = error_text sys" "path_join (record_sys sys) = path_join sys"
  "decode_login (record_sys sys) = decode_login sys" "decode_action (record_sys sys) = decode_action sys"
  "decode_unit (record_sys sys) = decode_unit sys" "decode_uninstall (record_sys sys) = decode_uninstall sys"
  "sleep_for (record_sys sys) (w, l) d = (sleep_for sys w d, l)"
  "stat_ok (record_sys sys) (w, l) f = stat_ok sys w f" "os_read (record_sys sys) (w, l) f = os_read sys w f"
  "clock (record_env env) (w, l) = clock env w" "check (record_env env) db u q = check env db u q"
  by (simp_all add: record_sys_def record_env_def check_eq)

lemma allowed_record [simp]: "allowed fl (record_sys sys) (w, es) e = allowed fl sys w e"
  by (cases e) simp_all

lemma record_steps:
  "combined_output (record_sys sys) (w, l) c = (case combined_output sys w c of (r, w1) \<Rightarrow> (r, (w1, Ran c # l)))"
  "os_write (record_sys sys) (w, l) f b = (case os_write sys w f b of (e, w1) \<Rightarrow> (e, (w1, Wrote f b # l)))"
  "os_remove (record_sys sys) (w, l) f = (case os_remove sys w f of (e, w1) \<Rightarrow> (e, (w1, Deleted f # l)))"
  "dial_timeout (record_sys sys) (w, l) n a t = (case dial_timeout sys w n a t of (up, w1) \<Rightarrow> (up, (w1, Dialled a # l)))"
  "rand_read (record_env env) (w, l) k = (case rand_read env w k of (b, w1) \<Rightarrow> (b, (w1, l)))"
  by (simp_all add: record_sys_def record_env_def)

lemmas recording = record_run record_steps

lemma command_response_record [simp]: "command_response (record_sys sys) out err = command_response sys out err"
  by (cases err) (simp_all add: command_response_def)

lemma erase_status: "erase (handleStatus fl (record_env env) (record_sys sys) p (w, l) rq) = handleStatus fl env sys p w rq"
  by (simp add: handleStatus_def hasLibpcap_def fileExists_def recording erase_def Let_def split: prod.splits)

lemma erase_action: "erase (handleAction fl (record_env env) (record_sys sys) p (w, l) rq) = handleAction fl env sys p w rq"
  by (simp add: handleAction_def command_response_record recording erase_def split: prod.splits option.splits)

lemma erase_logs: "erase (handleLogs fl (record_env env) (record_sys sys) p (w, l) rq) = handleLogs fl env sys p w rq"
  by (simp add: handleLogs_def recording erase_def split: prod.splits)

lemma erase_save: "erase (handleSaveService fl (record_env env) (record_sys sys) p (w, l) rq) = handleSaveService fl env sys p w rq"
  by (simp add: handleSaveService_def recording erase_def split: prod.splits option.splits sum.splits)

lemma removal_log_record: "removal_log (record_sys sys) what f r = removal_log sys what f r"
  by (cases r) (simp_all add: removal_log_def)

lemma erase_uninstall_service:
  "uninstall_service fl (record_sys sys) (w, l) = (logs, (w', l')) \<Longrightarrow> uninstall_service fl sys w = (logs, w')"
  by (auto simp: uninstall_service_def removal_log_record recording split: prod.splits)

lemma erase_uninstall_binary:
  "uninstall_binary fl (record_sys sys) (w, l) = (logs, (w', l')) \<Longrightarrow> uninstall_binary fl sys w = (logs, w')"
  by (auto simp: uninstall_binary_def removal_log_record recording split: prod.splits)

lemma erase_uninstall_build:
  "uninstall_build fl (record_sys sys) (w, l) names = (logs, (w', l')) \<Longrightarrow> uninstall_build fl sys w names = (logs, w')"
proof (induction names arbitrary: w l logs)
  case (Cons name names)
  then show ?case by (auto simp: recording Let_def split: prod.splits)
qed simp

lemma erase_probe:
  "probe_peers (record_sys sys) (w, l) as = (rs, (w', l')) \<Longrightarrow> probe_peers sys w as = (rs, w')"
proof (induction as arbitrary: w l rs)
  case (Cons a as)
  then show ?case by (auto simp: tcpReachable_def recording split: prod.splits)
qed simp

lemma erase_uninstall: "erase (handleUninstall fl (record_env env) (record_sys sys) p (w, l) rq) = handleUninstall fl env sys p w rq"
proof -
  obtain b s t where d: "decode_uninstall sys (limited (2 ^ 16) rq) = (b, s, t)" by (metis prod.exhaust)
  obtain l1 w1 k1 where 1: "(if s then uninstall_service fl (record_sys sys) (w, l) else ([], (w, l))) = (l1, (w1, k1))"
    by (metis prod.exhaust)
  obtain l2 w2 k2 where 2: "(if b then uninstall_binary fl (record_sys sys) (w1, k1) else ([], (w1, k1))) = (l2, (w2, k2))"
    by (metis prod.exhaust)
  define names where "names = [''t2tunnel'', ''rawtest'', ''rawchantest'', ''kcprawtest'']"
  obtain l3 w3 k3 where 3: "(if t then uninstall_build fl (record_sys sys) (w2, k2) names else ([], (w2, k2))) = (l3, (w3, k3))"
    by (metis prod.exhaust)
  have "(if s then uninstall_service fl sys w else ([], w)) = (l1, w1)"
    using 1 by (auto dest: erase_uninstall_service split: if_splits)
  moreover have "(if b then uninstall_binary fl sys w1 else ([], w1)) = (l2, w2)"
    using 2 by (auto dest: erase_uninstall_binary split: if_splits)
  moreover have "(if t then uninstall_build fl sys w2 names else ([], w2)) = (l3, w3)"
    using 3 by (auto dest: erase_uninstall_build split: if_splits)
  ultimately show ?thesis
    using d 1 2 3
    by (cases t) (simp_all add: handleUninstall_def names_def [symmetric] erase_def del: uninstall_build.simps)
qed

lemma erase_peer: "erase (handlePeer fl (record_env env) (record_sys sys) p (w, l) rq) = handlePeer fl env sys p w rq"
proof (cases "os_read sys w (unit_path fl)")
  case (Some unit)
  obtain rs w1 l1 where r: "probe_peers (record_sys sys) (w, l) (parsePeers (exec_line unit)) = (rs, (w1, l1))"
    by (metis prod.exhaust)
  with erase_probe [OF r] Some show ?thesis by (simp add: handlePeer_def erase_def Let_def)
qed (simp add: handlePeer_def erase_def)

lemma erase_xray_status: "erase (handleXrayStatus fl (record_env env) (record_sys sys) p (w, l) rq) = handleXrayStatus fl env sys p w rq"
  by (simp add: handleXrayStatus_def fileExists_def recording erase_def Let_def split: prod.splits)

lemma erase_xray_install: "erase (handleXrayInstall fl (record_env env) (record_sys sys) p (w, l) rq) = handleXrayInstall fl env sys p w rq"
  by (simp add: handleXrayInstall_def fileExists_def command_response_record recording erase_def split: prod.splits)

lemma erase_logout: "erase (handleLogout fl (record_env env) (record_sys sys) p (w, l) rq) = handleLogout fl env sys p w rq"
  by (simp add: handleLogout_def erase_def split: option.splits)

lemma erase_login: "erase (handleLogin fl (record_env env) (record_sys sys) p (w, l) rq) = handleLogin fl env sys p w rq"
  by (simp add: handleLogin_def create_def randHex_def recording erase_def Let_def split: prod.splits)

lemma erase_index: "erase (handleIndex fl (record_env env) (record_sys sys) p (w, l) rq) = handleIndex fl env sys p w rq"
  by (simp add: handleIndex_def erase_def split: option.splits)

lemmas erase_handlers = erase_status erase_action erase_logs erase_save erase_uninstall erase_peer
  erase_xray_status erase_xray_install erase_logout erase_login erase_index

lemma erase_auth:
  assumes "\<And>p. erase (h fl (record_env env) (record_sys sys) p (w, l) rq) = g fl env sys p w rq"
  shows "erase (auth h fl (record_env env) (record_sys sys) p (w, l) rq) = auth g fl env sys p w rq"
proof (cases "rq_cookie rq")
  case (Some tok)
  then show ?thesis
    using assms by (cases "valid (pn_sess p) (clock env w) tok") (auto simp: auth_def erase_def)
qed (simp add: auth_def erase_def)

lemma erase_serve:
  "erase (serve fl (record_env env) (record_sys sys) p (w, l) rq) = serve fl env sys p w rq"
  unfolding serve_def protected_handler_def by (simp add: erase_handlers erase_auth)

subsection \<open>Sessions of the panel\<close>

lemma protected_keeps_panel:
  assumes "protected_handler path = Some h" and "path \<noteq> ''/api/logout''"
  shows "fst (snd (h fl env sys p w rq)) = p"
proof -
  have "fst (snd (handlePeer fl env sys p w rq)) = p"
    by (simp add: handlePeer_def Let_def split: option.splits prod.splits)
  moreover have "fst (snd (handleUninstall fl env sys p w rq)) = p"
    by (simp add: handleUninstall_def split: prod.splits del: uninstall_build.simps)
  moreover have "fst (snd (handleStatus fl env sys p w rq)) = p"
    by (simp add: handleStatus_def Let_def split: prod.splits)
  moreover have "fst (snd (handleAction fl env sys p w rq)) = p"
    by (simp add: handleAction_def split: option.splits prod.splits)
  moreover have "fst (snd (handleLogs fl env sys p w rq)) = p"
    by (simp add: handleLogs_def split: prod.splits)
  moreover have "fst (snd (handleSaveService fl env sys p w rq)) = p"
    by (simp add: handleSaveService_def split: prod.splits option.splits sum.splits)
  moreover have "fst (snd (handleXrayStatus fl env sys p w rq)) = p"
    by (simp add: handleXrayStatus_def Let_def split: prod.splits)
  moreover have "fst (snd (handleXrayInstall fl env sys p w rq)) = p"
    by (simp add: handleXrayInstall_def split: prod.splits)
  ultimately show ?thesis using assms unfolding protected_handler_def by (metis option.inject option.distinct(1))
qed

text \<open>The panel after a history of requests, newest first, each in the world it met.\<close>

fun panel_after :: "panel_flags \<Rightarrow> 'w panel_env \<Rightarrow> 'w sys_env \<Rightarrow> DB \<Rightarrow> ('w \<times> http_req) list \<Rightarrow> panel" where
  "panel_after fl env sys db [] = \<lparr>pn_db = db, pn_sess = newSessions\<rparr>"
| "panel_after fl env sys db ((w, rq) # hist) =
     fst (snd (serve fl env sys (panel_after fl env sys db hist) w rq))"

text \<open>A request that logs in and is given this token at this time; one that logs it out.\<close>

definition logs_in :: "'w panel_env \<Rightarrow> 'w sys_env \<Rightarrow> DB \<Rightarrow> 'w \<times> http_req \<Rightarrow> string \<Rightarrow> time \<Rightarrow> bool" where
  "logs_in env sys db r tok now \<longleftrightarrow>
     (case r of (w, rq) \<Rightarrow>
        rq_path rq = ''/api/login'' \<and> rq_method rq = ''POST''
        \<and> (case decode_login sys (limited (2 ^ 16) rq) of (user, pass) \<Rightarrow> check env db user pass)
        \<and> (case randHex env (sleep_for sys w (250 * millisecond)) 32 of (t, w1) \<Rightarrow> tok = t \<and> now = clock env w1))"

definition logs_out :: "http_req \<Rightarrow> string \<Rightarrow> bool" where
  "logs_out rq tok \<longleftrightarrow> rq_path rq = ''/api/logout'' \<and> rq_cookie rq = Some tok"

lemma login_sessions:
  assumes "rq_path rq = ''/api/login''" and "s_m (pn_sess (fst (snd (handleLogin fl env sys p w rq)))) tok = Some e"
  shows "s_m (pn_sess p) tok = Some e \<or> (\<exists>now. logs_in env sys (pn_db p) (w, rq) tok now \<and> e = now + 8 * hour)"
proof -
  obtain user pass where d: "decode_login sys (limited (2 ^ 16) rq) = (user, pass)" by (metis prod.exhaust)
  obtain t w1 where t: "randHex env (sleep_for sys w (250 * millisecond)) 32 = (t, w1)" by (metis prod.exhaust)
  from assms d t show ?thesis
    by (auto simp: handleLogin_def logs_in_def create_def issue_session_def Let_def split: if_splits)
qed

lemma auth_sessions:
  assumes "protected_handler path = Some h" and "tok \<noteq> []"
    and "s_m (pn_sess (fst (snd (auth h fl env sys p w rq)))) tok = Some e"
  shows "s_m (pn_sess p) tok = Some e \<and> \<not> (path = ''/api/logout'' \<and> rq_cookie rq = Some tok)"
proof (cases "rq_cookie rq")
  case None
  with assms(3) show ?thesis by (simp add: auth_def)
next
  case (Some t)
  obtain ok sess where v: "valid (pn_sess p) (clock env w) t = (ok, sess)" by (metis prod.exhaust)
  have sess: "s_m sess tok = (if tok = t \<and> \<not> ok then None else s_m (pn_sess p) tok)"
    using panel_sessions.expiry_accept [of "pn_sess p" "clock env w" t tok] v assms(2) by auto
  show ?thesis
  proof (cases "ok \<and> path = ''/api/logout''")
    case True
    with assms(1,3) Some v sess show ?thesis
      by (auto simp: auth_def protected_handler_def handleLogout_def drop_session_def split: if_splits)
  next
    case False
    then have "s_m sess tok = Some e"
      using assms(3) Some v protected_keeps_panel [OF assms(1)] by (cases ok) (auto simp: auth_def)
    with sess False Some show ?thesis by (auto split: if_splits)
  qed
qed

lemma login_db: "pn_db (fst (snd (handleLogin fl env sys p w rq))) = pn_db p"
  by (simp add: handleLogin_def Let_def split: prod.splits)

lemma auth_db:
  assumes "protected_handler path = Some h"
  shows "pn_db (fst (snd (auth h fl env sys p w rq))) = pn_db p"
proof -
  have "pn_db (fst (snd (h fl env sys q w rq))) = pn_db q" for q
    using assms protected_keeps_panel [OF assms]
    by (cases "path = ''/api/logout''") (auto simp: protected_handler_def handleLogout_def split: option.splits)
  then show ?thesis by (simp add: auth_def split: option.splits prod.splits)
qed

lemma serve_db: "pn_db (fst (snd (serve fl env sys p w rq))) = pn_db p"
  by (auto simp: serve_def login_db auth_db handleIndex_def split: option.splits)

lemma panel_after_db: "pn_db (panel_after fl env sys db hist) = db"
  by (induction hist) (auto simp: serve_db)

lemma serve_sessions:
  assumes "tok \<noteq> []" and "s_m (pn_sess (fst (snd (serve fl env sys p w rq)))) tok = Some e"
  shows "s_m (pn_sess p) tok = Some e \<and> \<not> logs_out rq tok
    \<or> (\<exists>now. logs_in env sys (pn_db p) (w, rq) tok now \<and> e = now + 8 * hour)"
proof (cases "rq_path rq = ''/api/login''")
  case True
  with assms login_sessions [OF True, of fl env sys p w tok e] show ?thesis by (auto simp: serve_def logs_out_def)
next
  case login: False
  show ?thesis
  proof (cases "protected_handler (rq_path rq) :: 'a handler option")
    case None
    then have "rq_path rq \<noteq> ''/api/logout''" by (auto simp: protected_handler_def)
    with None assms(2) login show ?thesis
      by (auto simp: serve_def handleIndex_def logs_out_def split: if_splits option.splits)
  next
    case (Some h)
    then have "serve fl env sys p w rq = auth h fl env sys p w rq" using login by (simp add: serve_def)
    with auth_sessions [OF Some assms(1), of fl env sys p w rq e] assms(2) show ?thesis
      unfolding logs_out_def by metis
  qed
qed

lemma standing_login:
  assumes "tok \<noteq> []" and "s_m (pn_sess (panel_after fl env sys db hist)) tok = Some e"
  shows "\<exists>pre r post now. hist = pre @ r # post \<and> logs_in env sys db r tok now \<and> e = now + 8 * hour
    \<and> (\<forall>(w, rq) \<in> set pre. \<not> logs_out rq tok)"
  using assms(2)
proof (induction hist)
  case Nil
  then show ?case by (simp add: newSessions_def)
next
  case (Cons r hist)
  obtain w rq where r: "r = (w, rq)" by (cases r)
  let ?p = "panel_after fl env sys db hist"
  consider now where "logs_in env sys db (w, rq) tok now" "e = now + 8 * hour"
    | "s_m (pn_sess ?p) tok = Some e" "\<not> logs_out rq tok"
    using serve_sessions [OF assms(1), of fl env sys ?p w rq e] Cons.prems by (auto simp: r panel_after_db)
  then show ?case
  proof cases
    case 1
    then show ?thesis unfolding r by (intro exI [of _ "[]"] exI [of _ "(w, rq)"] exI [of _ hist] exI [of _ now]) simp
  next
    case 2
    with Cons.IH obtain pre l post now where "hist = pre @ l # post" "logs_in env sys db l tok now"
      "e = now + 8 * hour" "\<forall>(w, rq) \<in> set pre. \<not> logs_out rq tok" by blast
    with 2 show ?thesis unfolding r
      by (intro exI [of _ "(w, rq) # pre"] exI [of _ l] exI [of _ post] exI [of _ now]) simp
  qed
qed

text \<open>
  (C2) The panel serves only who has logged in. After any history of requests, a request
  to a protected path either gets the answer 401 and leaves the system untouched, or
  carries a token that an earlier login with the right user and password was given, at
  most eight hours ago, and that no request has logged out since.
\<close>

theorem panel_authorised:
  assumes "protected_handler (rq_path rq) = Some (h :: 'w handler)"
    and "serve fl env sys (panel_after fl env sys db hist) (w :: 'w) rq = (rs, p', w')"
  shows "rs = json_error 401 ''unauthorized'' \<and> w' = w
    \<or> (\<exists>tok pre r post now. rq_cookie rq = Some tok \<and> hist = pre @ r # post \<and> logs_in env sys db r tok now
         \<and> clock env w \<le> now + 8 * hour \<and> (\<forall>(w, rq) \<in> set pre. \<not> logs_out rq tok))"
proof -
  let ?p = "panel_after fl env sys db hist"
  have "rq_path rq \<noteq> ''/api/login''" using assms(1) by (auto simp: protected_handler_def)
  then have a: "auth h fl env sys ?p w rq = (rs, p', w')" using assms by (simp add: serve_def)
  show ?thesis
  proof (cases "\<exists>tok. rq_cookie rq = Some tok \<and> fst (valid (pn_sess ?p) (clock env w) tok)")
    case True
    then obtain tok e where "rq_cookie rq = Some tok" "tok \<noteq> []" "s_m (pn_sess ?p) tok = Some e" "clock env w \<le> e"
      by (auto simp: valid_eq)
    with standing_login [of tok fl env sys db hist e] show ?thesis by blast
  next
    case False
    with a show ?thesis by (auto simp: auth_def split: option.splits prod.splits if_splits)
  qed
qed

lemma login_grants:
  assumes "logs_in env sys (pn_db p) (w, rq) tok now"
  shows "s_m (pn_sess (fst (snd (serve fl env sys p w rq)))) tok = Some (now + 8 * hour)"
proof -
  obtain user pass where d: "decode_login sys (limited (2 ^ 16) rq) = (user, pass)" by (metis prod.exhaust)
  obtain t w1 where t: "randHex env (sleep_for sys w (250 * millisecond)) 32 = (t, w1)" by (metis prod.exhaust)
  from assms d t show ?thesis
    by (simp add: serve_def handleLogin_def logs_in_def create_def issue_session_def Let_def)
qed

lemma auth_keeps_session:
  assumes "protected_handler path = Some h" and "s_m (pn_sess p) tok = Some e"
    and "\<not> (path = ''/api/logout'' \<and> rq_cookie rq = Some tok)" and "clock env w \<le> e"
  shows "s_m (pn_sess (fst (snd (auth h fl env sys p w rq)))) tok = Some e"
proof (cases "rq_cookie rq")
  case None
  with assms(2) show ?thesis by (simp add: auth_def)
next
  case (Some t)
  obtain ok sess where v: "valid (pn_sess p) (clock env w) t = (ok, sess)" by (metis prod.exhaust)
  have sess: "s_m sess tok = Some e"
    using panel_sessions.expiry_accept [of "pn_sess p" "clock env w" t tok] v assms(2,4)
      panel_sessions.accept_iff [of "pn_sess p" "clock env w" t] by (auto split: if_splits)
  show ?thesis
  proof (cases "ok \<and> path = ''/api/logout''")
    case True
    with assms(1,3) Some v sess show ?thesis
      by (auto simp: auth_def protected_handler_def handleLogout_def drop_session_def)
  next
    case False
    then show ?thesis
      using Some v sess protected_keeps_panel [OF assms(1)] by (cases ok) (auto simp: auth_def)
  qed
qed

lemma serve_keeps_session:
  assumes "s_m (pn_sess p) tok = Some e" and "\<not> logs_out rq tok" and "clock env w \<le> e"
    and "\<And>t. logs_in env sys (pn_db p) (w, rq) tok t \<Longrightarrow> e \<le> t + 8 * hour"
  shows "\<exists>e' \<ge> e. s_m (pn_sess (fst (snd (serve fl env sys p w rq)))) tok = Some e'"
proof (cases "rq_path rq = ''/api/login''")
  case True
  show ?thesis
  proof (cases "\<exists>t. logs_in env sys (pn_db p) (w, rq) tok t")
    case t: True
    then obtain t where "logs_in env sys (pn_db p) (w, rq) tok t" by blast
    with login_grants [OF this, of fl] assms(4) [OF this] show ?thesis by blast
  next
    case False
    obtain user pass where d: "decode_login sys (limited (2 ^ 16) rq) = (user, pass)" by (metis prod.exhaust)
    obtain t w1 where t: "randHex env (sleep_for sys w (250 * millisecond)) 32 = (t, w1)" by (metis prod.exhaust)
    from False True d t assms(1) have "s_m (pn_sess (fst (snd (serve fl env sys p w rq)))) tok = Some e"
      by (auto simp: serve_def handleLogin_def logs_in_def create_def issue_session_def Let_def)
    then show ?thesis by blast
  qed
next
  case login: False
  have "s_m (pn_sess (fst (snd (serve fl env sys p w rq)))) tok = Some e"
  proof (cases "protected_handler (rq_path rq) :: 'a handler option")
    case None
    with assms(1) login show ?thesis by (simp add: serve_def handleIndex_def split: option.split)
  next
    case (Some h)
    then have "serve fl env sys p w rq = auth h fl env sys p w rq" using login by (simp add: serve_def)
    with auth_keeps_session [OF Some assms(1) _ assms(3)] assms(2) show ?thesis by (simp add: logs_out_def)
  qed
  then show ?thesis by blast
qed

lemma standing_session:
  assumes "logs_in env sys db r tok now"
    and "\<forall>(w, rq) \<in> set pre. \<not> logs_out rq tok \<and> clock env w \<le> now + 8 * hour
       \<and> (\<forall>t. logs_in env sys db (w, rq) tok t \<longrightarrow> now \<le> t)"
  shows "\<exists>e \<ge> now + 8 * hour. s_m (pn_sess (panel_after fl env sys db (pre @ r # post))) tok = Some e"
  using assms(2)
proof (induction pre)
  case Nil
  with assms(1) login_grants [of env sys "panel_after fl env sys db post" "fst r" "snd r" tok now fl] show ?case
    by (cases r) (simp add: panel_after_db)
next
  case (Cons q pre)
  obtain w rq where q: "q = (w, rq)" by (cases q)
  let ?p = "panel_after fl env sys db (pre @ r # post)"
  obtain e where e: "now + 8 * hour \<le> e" "s_m (pn_sess ?p) tok = Some e" using Cons by auto
  show ?case
  proof (cases "\<exists>t. logs_in env sys db (w, rq) tok t")
    case True
    then obtain t where t: "logs_in env sys db (w, rq) tok t" by blast
    with Cons.prems have "now \<le> t" by (simp add: q)
    moreover have "s_m (pn_sess (fst (snd (serve fl env sys ?p w rq)))) tok = Some (t + 8 * hour)"
      using t by (intro login_grants) (simp add: panel_after_db)
    ultimately show ?thesis by (simp add: q)
  next
    case False
    have "clock env w \<le> e" "\<not> logs_out rq tok" using Cons.prems e by (auto simp: q)
    with serve_keeps_session [OF e(2), of rq env w sys fl] False e(1) show ?thesis
      by (auto simp: q panel_after_db)
  qed
qed

text \<open>
  (C22) Who has logged in is served. For eight hours after a login with the right user and
  password, unless the token is logged out (or presented with a clock past its time, or
  drawn again for a login with an earlier clock), every protected request that carries
  the token is handed to its handler, with the panel as it is.
\<close>

theorem panel_login_lasts:
  assumes "logs_in env sys db r tok now" and "tok \<noteq> []"
    and "\<forall>(w, rq) \<in> set pre. \<not> logs_out rq tok \<and> clock env w \<le> now + 8 * hour
       \<and> (\<forall>t. logs_in env sys db (w, rq) tok t \<longrightarrow> now \<le> t)"
    and "protected_handler (rq_path rq) = Some h" and "rq_cookie rq = Some tok" and "clock env w \<le> now + 8 * hour"
  shows "serve fl env sys (panel_after fl env sys db (pre @ r # post)) w rq
    = h fl env sys (panel_after fl env sys db (pre @ r # post)) w rq"
proof -
  let ?p = "panel_after fl env sys db (pre @ r # post)"
  obtain e where "now + 8 * hour \<le> e" "s_m (pn_sess ?p) tok = Some e"
    using standing_session [OF assms(1,3), of fl post] by blast
  then have "valid (pn_sess ?p) (clock env w) tok = (True, pn_sess ?p)"
    using assms(2,6) by (simp add: valid_def)
  moreover have "rq_path rq \<noteq> ''/api/login''" using assms(4) by (auto simp: protected_handler_def)
  ultimately show ?thesis using assms(4,5) by (simp add: serve_def auth_def)
qed

lemma login_effects:
  "snd (snd (snd (handleLogin fl (record_env env) (record_sys sys) p (w, l) rq))) = l"
proof -
  obtain user pass where d: "decode_login sys (limited (2 ^ 16) rq) = (user, pass)" by (metis prod.exhaust)
  obtain b w1 where "rand_read env (sleep_for sys w (250 * millisecond)) 32 = (b, w1)" by (metis prod.exhaust)
  with d show ?thesis
    by (cases "rq_method rq = ''POST'' \<and> check env (pn_db p) user pass")
      (auto simp: handleLogin_def create_def randHex_def recording Let_def)
qed

text \<open>
  (C7) What a request can do is fixed by the flags of the panel. The effects of any
  request are commands of a list that depends on the flags alone, so no part of a
  request becomes part of a command line; writing the unit file with a text that has a
  service section and a start line; deleting one of six files; and connecting to peers
  named in the unit file. A request that has any effect is to a protected path and
  carries a token that is valid. Recording the effects changes nothing else.
\<close>

theorem panel_confined:
  assumes "serve fl (record_env env) (record_sys sys) p (w, []) rq = (rs, p', (w', es))"
  shows "serve fl env sys p w rq = (rs, p', w')
    \<and> (\<forall>e \<in> set es. allowed fl sys w e)
    \<and> (es \<noteq> [] \<longrightarrow> (\<exists>tok. rq_cookie rq = Some tok \<and> fst (valid (pn_sess p) (clock env w) tok)))
    \<and> pn_db p' = pn_db p"
proof (intro conjI)
  show "serve fl env sys p w rq = (rs, p', w')"
    using erase_serve [of fl env sys p w "[]" rq] assms by (simp add: erase_def)
  show "\<forall>e \<in> set es. allowed fl sys w e"
    using recorded.serve_kept [of fl sys w env p rq] assms by simp
  show "pn_db p' = pn_db p" using serve_db [of fl "record_env env" "record_sys sys" p "(w, [])" rq] assms by simp
  show "es \<noteq> [] \<longrightarrow> (\<exists>tok. rq_cookie rq = Some tok \<and> fst (valid (pn_sess p) (clock env w) tok))"
    using assms login_effects [of fl env sys p w "[]" rq]
    by (auto simp: serve_def auth_def handleIndex_def split: option.splits prod.splits if_splits)
qed

subsection \<open>Concrete runs\<close>

text \<open>
  A system whose commands print nothing and whose decoders take the body as the password
  of admin, the name of an action and the text of a unit; its account has the password pw.
\<close>

definition demo_panel_sys :: "(string \<rightharpoonup> string) sys_env" where
  "demo_panel_sys =
     \<lparr>combined_output = (\<lambda>w c. ((''ok'', None), w)),
      stat_ok = (\<lambda>w f. w f \<noteq> None),
      os_read = (\<lambda>w f. w f),
      os_write = (\<lambda>w f b. (None, w(f \<mapsto> b))),
      os_remove = (\<lambda>w f. (if w f = None then NotExist else Removed, w(f := None))),
      dial_timeout = (\<lambda>w n a d. (False, w)),
      sleep_for = (\<lambda>w d. w),
      error_text = (\<lambda>e. ''error''),
      path_join = (\<lambda>a b. a @ ''/'' @ b),
      decode_login = (\<lambda>b. (''admin'', b)),
      decode_action = (\<lambda>b. b),
      decode_unit = (\<lambda>b. Inr b),
      decode_uninstall = (\<lambda>b. (True, True, True))\<rparr>"

definition demo_flags :: panel_flags where
  "demo_flags = \<lparr>flagAddr = ''127.0.0.1:2331'', flagRepo = ''/srv'', flagBin = ''/usr/local/bin/t2tunnel'',
     flagService = ''t2tunnel'', flagDB = ''panel.db.json''\<rparr>"

definition demo_db :: DB where
  "demo_db = \<lparr>User = ''admin'', PassHash = hashPw demo_panel ''00'' ''pw'', Salt = ''00'', db_path = ''db''\<rparr>"

definition demo_login :: http_req where
  "demo_login = \<lparr>rq_method = ''POST'', rq_path = ''/api/login'', rq_cookie = None, rq_body = ''pw''\<rparr>"

definition demo_restart :: http_req where
  "demo_restart = \<lparr>rq_method = ''POST'', rq_path = ''/api/action'',
     rq_cookie = Some (hex_encode (replicate 32 7)), rq_body = ''service-restart''\<rparr>"

lemma demo_token: "hex_encode (replicate 32 7) \<noteq> []"
  using length_hex_encode [of "replicate 32 7"] by (metis length_replicate list.size(3) mult_eq_0_iff zero_neq_numeral)

definition demo_sess :: Sessions where
  "demo_sess = \<lparr>s_m = [hex_encode (replicate 32 7) \<mapsto> 1000 * second + 8 * hour]\<rparr>"

lemma demo_after_login:
  "panel_after demo_flags demo_panel demo_panel_sys demo_db [(Map.empty, demo_login)] =
     \<lparr>pn_db = demo_db, pn_sess = demo_sess\<rparr>"
proof -
  have "check demo_panel demo_db ''admin'' ''pw''" by (simp add: check_eq demo_db_def hashPw_def)
  then show ?thesis
    by (simp add: serve_def handleLogin_def demo_login_def demo_panel_sys_def limited_def create_def randHex_def demo_panel_def
        newSessions_def issue_session_def demo_sess_def Let_def)
qed

lemma demo_valid: "valid demo_sess (clock demo_panel w) (hex_encode (replicate 32 7)) = (True, demo_sess)"
  using demo_token by (simp add: valid_def demo_sess_def demo_panel_def)

lemma demo_restart_command: "action_command demo_flags ''service-restart'' = Some [''systemctl'', ''restart'', ''t2tunnel'']"
  by (simp add: action_command_def demo_flags_def)

lemma demo_output: "combined_output demo_panel_sys w c = ((''ok'', None), w)"
  by (simp add: demo_panel_sys_def)

lemma demo_decode: "decode_action demo_panel_sys b = b"
  by (simp add: demo_panel_sys_def)

theorem panel_authorised_witness:
  "\<exists>rs p' w'. serve demo_flags demo_panel demo_panel_sys
       (panel_after demo_flags demo_panel demo_panel_sys demo_db [(Map.empty, demo_login)]) Map.empty demo_restart = (rs, p', w')
     \<and> rs_code rs = 200
     \<and> logs_in demo_panel demo_panel_sys demo_db (Map.empty, demo_login) (hex_encode (replicate 32 7)) (clock demo_panel Map.empty)"
proof -
  let ?hist = "[(Map.empty, demo_login)]"
  let ?p = "panel_after demo_flags demo_panel demo_panel_sys demo_db ?hist"
  have h: "protected_handler (rq_path demo_restart) = Some (handleAction :: (string \<rightharpoonup> string) handler)"
    by (simp add: protected_handler_def demo_restart_def)
  obtain rs p' w' where s: "serve demo_flags demo_panel demo_panel_sys ?p Map.empty demo_restart = (rs, p', w')"
    by (metis prod.exhaust)
  have "rs = writeJSON 200 (command_response demo_panel_sys ''ok'' None)"
    using s unfolding demo_after_login
    by (simp add: serve_def auth_def demo_restart_def protected_handler_def demo_valid handleAction_def limited_def
        demo_restart_command demo_output demo_decode)
  then have c: "rs_code rs = 200" by (simp add: writeJSON_def)
  with panel_authorised [OF h s] s show ?thesis
    by (auto simp: json_error_def writeJSON_def demo_restart_def Cons_eq_append_conv logs_in_def demo_panel_def randHex_def)
qed

theorem panel_confined_witness:
  "\<exists>rs p' w'. serve demo_flags (record_env demo_panel) (record_sys demo_panel_sys)
       (panel_after demo_flags demo_panel demo_panel_sys demo_db [(Map.empty, demo_login)]) (Map.empty, []) demo_restart
         = (rs, p', (w', [Ran [''systemctl'', ''restart'', ''t2tunnel'']]))
     \<and> allowed demo_flags demo_panel_sys Map.empty (Ran [''systemctl'', ''restart'', ''t2tunnel''])"
proof -
  obtain rs p' where s: "serve demo_flags (record_env demo_panel) (record_sys demo_panel_sys)
       (panel_after demo_flags demo_panel demo_panel_sys demo_db [(Map.empty, demo_login)]) (Map.empty, []) demo_restart
         = (rs, p', (Map.empty, [Ran [''systemctl'', ''restart'', ''t2tunnel'']]))"
    unfolding demo_after_login
    using demo_output
    by (simp add: serve_def auth_def demo_restart_def protected_handler_def demo_valid handleAction_def limited_def
        demo_restart_command record_steps demo_decode)
  with panel_confined [OF s] show ?thesis by auto
qed

theorem panel_login_lasts_witness:
  "serve demo_flags demo_panel demo_panel_sys
       (panel_after demo_flags demo_panel demo_panel_sys demo_db [(Map.empty, demo_login)]) Map.empty demo_restart
     = handleAction demo_flags demo_panel demo_panel_sys
       (panel_after demo_flags demo_panel demo_panel_sys demo_db [(Map.empty, demo_login)]) Map.empty demo_restart"
proof -
  have h: "protected_handler (rq_path demo_restart) = Some (handleAction :: (string \<rightharpoonup> string) handler)"
    by (simp add: protected_handler_def demo_restart_def)
  have "check demo_panel demo_db ''admin'' ''pw''" by (simp add: check_eq demo_db_def hashPw_def)
  then have l: "logs_in demo_panel demo_panel_sys demo_db (Map.empty, demo_login) (hex_encode (replicate 32 7)) (1000 * second)"
    by (simp add: logs_in_def demo_login_def demo_panel_sys_def limited_def randHex_def demo_panel_def)
  have c: "rq_cookie demo_restart = Some (hex_encode (replicate 32 7))" by (simp add: demo_restart_def)
  have "clock demo_panel Map.empty \<le> 1000 * second + 8 * hour" by (simp add: demo_panel_def)
  from panel_login_lasts [OF l demo_token _ h c this, of "[]" demo_flags "[]"] show ?thesis by simp
qed

end
