(* ===== verification/Spec2Isabelle.thy ===== *)
theory Spec2Isabelle
  imports Engine_Main Pipe Panel_Security
begin

text \<open>
  A verification library for the Go program of this repository: a tunnel that carries
  local TCP connections over one multiplexed session to a server (src/t2tunnel/*.go), and
  the web panel that builds, configures and starts it (src/t2tunnel/webpanel/panel.go).

  \<^bold>\<open>How the program is put together.\<close> The client accepts a local connection, takes the
  shared session (dialling a transport, wrapping it in the obfuscation layer and starting
  the multiplexer smux on it when there is none), opens a stream and pipes. The server
  accepts transports, wraps them in the same way, accepts streams, dials the target and
  pipes. Transports are TLS (with an optional browser fingerprint and an optional
  fragmentation of the first write), WebSocket, KCP over UDP, and KCP over raw TCP packets.
  \<open>main\<close> chooses among them by the flags, after filling in the raw parameters from the
  system and installing firewall rules. The panel is a separate process.

  \<^bold>\<open>The theories, in the order of the imports.\<close>

  \<^item> \<open>Tunnel_Prelude\<close>: bytes, 16-bit fields, 64-bit wrap-around, errors, shared list lemmas.
  \<^item> \<open>Go_Conn\<close>: connections as segments still to arrive and bytes sent; \<open>io.ReadFull\<close>; the
    locale \<open>conn_writer\<close>, the contract of \<open>io.Writer\<close>, interpreted on the connection
    here and on \<open>fragConn\<close> over it in \<open>Tls_Transport\<close>, and shown for \<open>wsConn\<close>.
  \<^item> \<open>Obfs\<close> (obfs.go): the frames of \<open>obfsConn\<close>; a reader is shown to refine a queue of
    messages, from which the round trip and the behaviour on cut streams follow.
  \<^item> \<open>Tls_Transport\<close> (tls_transport.go): \<open>fragConn\<close>, the certificate, the listener, and
    \<open>dialTLS\<close> with what it leaves open. \<open>Ws_Transport\<close> (ws_transport.go): the byte stream over
    messages, the listener with its queue of 64 connections, the request of the client.
  \<^item> \<open>Go_Strings\<close>: the functions of the packages strings and hex that the sources call.
  \<^item> \<open>Session_Setup\<close> (engine.go, \<open>applyKCP\<close>, \<open>smuxConfig\<close>, and the dial, wrap, start sequence
    of all engines). \<open>Pipe\<close> (engine.go, \<open>pipe\<close>): two goroutines, \<open>sync.Once\<close> and the wait
    group as a step relation.
  \<^item> \<open>Multi_Path\<close> (multipath.go): failover over several servers with a blacklist.
    \<open>Client_Sessions\<close> (\<open>runClient\<close>, \<open>runClientTLS\<close>, \<open>runClientWS\<close>, \<open>MultiPathClient.Run\<close>): the
    cached session of each engine as an instance of one locale \<open>session_provider\<close>, and the
    loops over local connections. \<open>Raw_Client\<close> (engine_raw.go): the client without a mutex.
  \<^item> \<open>Server_Sessions\<close> (net.go and the server halves of the engines): accept loops and the
    handling of streams.
  \<^item> \<open>Raw_Packet_Conn\<close> (rawpacketconn.go): opening a capture handle, the reader goroutine with
    its channel of 1024 payloads, deadlines, writing, closing, and \<open>itoa\<close>.
  \<^item> \<open>Auto_Discover\<close> (autodiscover.go) and \<open>Ip_Tables\<close> (iptables.go): what \<open>main\<close> asks the system.
  \<^item> \<open>Engine_Main\<close> (engine.go, \<open>main\<close>): from the flags to the engine that is started.
  \<^item> \<open>Panel_Auth\<close>, \<open>Panel_Commands\<close>, \<open>Panel_Server\<close> (panel.go): the account and the login
    sessions; the command lines and the parsing of unit files; the handlers and routes.
    \<open>Panel_Security\<close> proves what a request can do and for whom.
  \<^item> This theory: the properties that span the components.

  \<^bold>\<open>How code becomes definitions.\<close> Structs are records with the names of the source (a
  prefix where two would clash), a method is a function that takes the record and returns
  it updated, an error is a value of \<open>go_error\<close>, a panic is \<open>None\<close> or an outcome of its own.
  What the operating system and the libraries do is a record of functions over a world
  \<open>'w\<close>; the laws a property needs of them are named predicates (\<open>net_env_ok\<close>, \<open>pcap_ok\<close>,
  \<open>ws_lib_ok\<close>, \<open>write_message_ok\<close>, \<open>iptables_ok\<close>, \<open>panel_env_ok\<close> and others), and each such
  property has a witness over a concrete environment. A \<open>select\<close> with several ready cases
  is the list of its outcomes; goroutines that share state are step relations or runs over
  arbitrary interleavings of critical sections. Times are nanoseconds as integers, and
  integers keep their width where it matters: the 16-bit lengths of a frame, ports,
  failure counters, and the 64-bit arithmetic of padding, jitter and \<open>itoa\<close>.

  \<^bold>\<open>Bounds and fuel.\<close> No definition uses fuel. Loops over lists and indices are total
  functions; the read loop of \<open>wsConn\<close> may run for ever on a peer that sends only
  text messages and is a partial function, proved to return when a binary message or an
  error comes. A run of an accept loop is a function of the list of the results of
  accepting. Lists of read sizes in the statements about streams only have to be longer than the
  number of bytes and frames, since every read makes progress.

  \<^bold>\<open>What is not modelled.\<close> The protocols of TLS, uTLS, WebSocket, KCP and smux, packet capture
  and the kernel, shells and systemd, JSON and the HTTP server: they are libraries or
  other programs, and parameters here. The block cipher of KCP is an argument that \<open>main\<close>
  hands on and no engine looks at. Log lines, the banner of the first run and the debug method of
  \<open>obfsConn\<close> only print. The address and deadline methods of \<open>wsConn\<close> forward to the library. The page of the
  panel, the installer script and the assembly file are not Go code; the shape of the unit
  text the page writes is a hypothesis of the property about peers.
\<close>

section \<open>Multiplexer, obfuscation and WebSocket together\<close>

text \<open>
  smux writes frames of an 8-byte header and at most \<open>MaxFrameSize\<close> bytes of payload; a
  payload of the obfuscation layer is one of them.
\<close>

definition smux_frame_ok :: "smux_config \<Rightarrow> bytes \<Rightarrow> bool" where
  "smux_frame_ok cfg p \<longleftrightarrow> length p \<le> 8 + MaxFrameSize cfg"

lemma smux_frame_fits: "smux_frame_ok (smuxConfig def) p \<Longrightarrow> length p < 65536"
  by (simp add: smux_frame_ok_def smuxConfig_def)

lemma ws_obfs_messages:
  assumes "write_message_ok lib out" and "o_cfg c = DefaultObfsConfig"
    and "obfs_writes (ws_Write lib) c eps = Some c'"
  shows "out (ws_c (o_conn c')) = out (ws_c (o_conn c)) @ map (\<lambda>(e, p). obfs_frame p (obfs_pad e)) eps"
  using assms(2,3)
proof (induction eps arbitrary: c)
  case (Cons ep eps)
  obtain e p where ep: "ep = (e, p)" by (cases ep)
  obtain slept where w: "obfs_Write (ws_Write lib) c e p =
       (case ws_Write lib (o_conn c) (obfs_frame p (obfs_pad e)) of
          ((_, Some er), k) \<Rightarrow> Some ((0, Some er), slept, c\<lparr>o_conn := k\<rparr>)
        | ((_, None), k) \<Rightarrow> Some ((length p, None), slept, c\<lparr>o_conn := k\<rparr>))"
    by (rule obfs_Write_default [OF Cons.prems(1)])
  obtain n er k where k: "ws_Write lib (o_conn c) (obfs_frame p (obfs_pad e)) = ((n, er), k)"
    by (metis prod.exhaust)
  with w Cons.prems(2) ep have er: "er = None" and rest: "obfs_writes (ws_Write lib) (c\<lparr>o_conn := k\<rparr>) eps = Some c'"
    by (cases er; simp)+
  have "out (ws_c k) = out (ws_c (o_conn c)) @ [obfs_frame p (obfs_pad e)]"
    using ws_Write_out [OF assms(1) k] er by simp
  with Cons.IH [OF _ rest] Cons.prems(1) ep show ?case by simp
qed simp

text \<open>
  (C5) The stack of the WebSocket engines: the frames smux writes with the configuration
  of the engines, obfuscated and sent over a WebSocket, leave as one binary message
  each; and a peer that reads the bytes of those messages, cut in any way, through its
  own obfuscation layer gets exactly the bytes smux wrote, then the end of the stream.
\<close>

theorem tunnel_over_websocket:
  assumes "write_message_ok lib out" and "out c = []"
    and "\<forall>(e, p) \<in> set eps. smux_frame_ok (smuxConfig def) p"
    and "obfs_writes (ws_Write lib) \<lparr>o_conn = newWSConn c, o_cfg = DefaultObfsConfig, o_readBuf = []\<rparr> eps = Some w"
    and "concat segs = concat (out (ws_c (o_conn w)))" and "\<forall>k \<in> set ks. 0 < k"
    and "length (concat (map snd eps)) + length eps < length ks"
  shows "length (out (ws_c (o_conn w))) = length eps
    \<and> fst (obfs_reads \<lparr>o_conn = fresh_conn segs, o_cfg = DefaultObfsConfig, o_readBuf = []\<rparr> ks)
        = (concat (map snd eps), Some EOF)"
proof -
  have m: "out (ws_c (o_conn w)) = map (\<lambda>(e, p). obfs_frame p (obfs_pad e)) eps"
    using ws_obfs_messages [OF assms(1) _ assms(4)] assms(2) by (simp add: newWSConn_def)
  have "\<forall>(e, p) \<in> set eps. length p < 65536" using assms(3) smux_frame_fits by blast
  from obfs_frames_read [OF this _ assms(6,7), of segs] show ?thesis using assms(5) by (simp add: m)
qed

theorem tunnel_over_websocket_witness:
  "\<exists>w. obfs_writes (ws_Write scripted_lib)
      \<lparr>o_conn = newWSConn ([], [], []), o_cfg = DefaultObfsConfig, o_readBuf = []\<rparr> [(demo_entropy, [1, 2, 3])] = Some w
    \<and> length (snd (snd (ws_c (o_conn w)))) = 1
    \<and> fst (obfs_reads \<lparr>o_conn = fresh_conn (snd (snd (ws_c (o_conn w)))), o_cfg = DefaultObfsConfig, o_readBuf = []\<rparr>
        (replicate 5 2)) = ([1, 2, 3], Some EOF)"
proof -
  have ok: "write_message_ok scripted_lib (\<lambda>c. snd (snd c))"
    by (auto simp: write_message_ok_def scripted_lib_def split: prod.splits)
  obtain w where w: "obfs_writes (ws_Write scripted_lib)
      \<lparr>o_conn = newWSConn ([], [], []), o_cfg = DefaultObfsConfig, o_readBuf = []\<rparr> [(demo_entropy, [1, 2, 3])] = Some w"
    by (simp add: obfs_Write_def DefaultObfsConfig_def [symmetric] demo_pad_len demo_jitter ws_Write_def newWSConn_def
        scripted_lib_def)
  have "smux_frame_ok (smuxConfig (ne_smux_default demo_net)) [1, 2, 3]" by (simp add: smux_frame_ok_def)
  then show ?thesis
    using tunnel_over_websocket [OF ok _ _ w refl, of "ne_smux_default demo_net" "replicate 5 2"] w by simp
qed

section \<open>The panel and the tunnel it manages\<close>


definition demo_unit :: string where
  "demo_unit = Join ([''[Service]''] @ (''ExecStart='' @ Join ([''t2tunnel'', ''-mode'', ''client'']
     @ [''-remotes'', dq @ Join [''a:443'', ''b:443''] '','' @ dq] @ [''-sni'', ''x'']) '' '') # [''Restart=always'']) nl"


section \<open>From the local connection to the target\<close>

text \<open>
  (C8) End to end, the client's \<open>pipe(conn, stream)\<close> and the server's \<open>pipe(stream, out)\<close>
  joined by a stream that carries what is written to it: at every moment the target has
  received a prefix of what the local side sent, and the local side a prefix of what the
  target sent. If only the local side ends and no write fails, the target has received
  all of it once both calls have returned.
\<close>

theorem tunnel_end_to_end:
  assumes "(pipe_step cl)\<^sup>*\<^sup>* (pipe_init cl) sc" and "(pipe_step sv)\<^sup>*\<^sup>* (pipe_init sv) ss"
    and "input sv True = written sc False" and "input cl False = written ss True"
  shows "prefix (written ss False) (input cl True) \<and> prefix (written sc True) (input sv False)
    \<and> (pipe_returned sc \<and> pipe_returned ss \<and> \<not> ends cl False \<and> \<not> ends sv False
        \<and> (\<forall>h. \<not> broken cl h) \<and> (\<forall>h. \<not> broken sv h)
       \<longrightarrow> written ss False = input cl True)"
proof (intro conjI impI)
  show "prefix (written ss False) (input cl True)"
    using pipe_writes_prefix [OF assms(2), of False] pipe_writes_prefix [OF assms(1), of False] assms(3)
    by (auto intro: prefix_order.trans)
  show "prefix (written sc True) (input sv False)"
    using pipe_writes_prefix [OF assms(1), of True] pipe_writes_prefix [OF assms(2), of True] assms(4)
    by (auto intro: prefix_order.trans)
  assume a: "pipe_returned sc \<and> pipe_returned ss \<and> \<not> ends cl False \<and> \<not> ends sv False
        \<and> (\<forall>h. \<not> broken cl h) \<and> (\<forall>h. \<not> broken sv h)"
  show "written ss False = input cl True"
    using pipe_forwards_all [of cl True sc, OF _ _ assms(1)] pipe_forwards_all [of sv True ss, OF _ _ assms(2)] a assms(3)
    by simp
qed

text \<open>A server that forwards the two bytes a client sends, each side seeing the other's run.\<close>

definition demo_local :: pipe_world where
  "demo_local = \<lparr>input = (\<lambda>e. if e then [7, 8] else []), ends = (\<lambda>e. e), broken = (\<lambda>e. False)\<rparr>"

lemma demo_local_run:
  "\<exists>s. (pipe_step demo_local)\<^sup>*\<^sup>* (pipe_init demo_local) s \<and> pipe_returned s \<and> written s = (\<lambda>e. if e then [] else [7, 8])"
proof -
  obtain s where s: "(pipe_step demo_local)\<^sup>*\<^sup>* (pipe_init demo_local) s" "pipe_returned s"
    "written s False = [7, 8]" "written s True = []"
    using pipe_half_close_run [of demo_local True] by (auto simp: demo_local_def)
  then show ?thesis by (intro exI [of _ s]) (auto simp: fun_eq_iff)
qed

theorem tunnel_end_to_end_witness:
  "\<exists>sc ss. (pipe_step demo_local)\<^sup>*\<^sup>* (pipe_init demo_local) sc \<and> (pipe_step demo_local)\<^sup>*\<^sup>* (pipe_init demo_local) ss
     \<and> pipe_returned ss \<and> written ss False = [7, 8] \<and> written ss False = input demo_local True"
proof -
  obtain s where s: "(pipe_step demo_local)\<^sup>*\<^sup>* (pipe_init demo_local) s" "pipe_returned s"
    "written s = (\<lambda>e. if e then [] else [7, 8])" using demo_local_run by blast
  then have "input demo_local True = written s False" "input demo_local False = written s True"
    by (simp_all add: demo_local_def)
  from tunnel_end_to_end [OF s(1) s(1) this] s show ?thesis
    by (intro exI [of _ s]) (simp add: demo_local_def)
qed

end
